theory Spec2Isabelle
  imports Complex_Main
begin

section \<open>Errors and float values\<close>

text \<open>
  The exceptions that \<^verbatim>\<open>stage2_kg_pretrain.py\<close> can raise in the parts embedded
  here, one constructor per raise site kind:
  \<^item> \<open>OnlyTailSupported\<close>: \<^verbatim>\<open>ValueError("Only tail metric is supported in this mode")\<close>;
  \<^item> \<open>UnpackError\<close>: the \<^verbatim>\<open>ValueError\<close> of a tuple unpacking of the wrong length;
  \<^item> \<open>InvalidLiteral\<close>: the \<^verbatim>\<open>ValueError\<close> of \<^verbatim>\<open>int(s)\<close>;
  \<^item> \<open>FactorialNegative\<close>: the \<^verbatim>\<open>ValueError\<close> of \<^verbatim>\<open>math.factorial\<close> on a negative number;
  \<^item> the others are Python's and torch's exceptions of the same name.
\<close>

datatype pyerr =
    OnlyTailSupported
  | UnpackError
  | InvalidLiteral
  | FactorialNegative
  | UnboundLocalError
  | AttributeError
  | RuntimeError
  | IndexError
  | ZeroDivisionError
  | FileNotFoundError

definition bind_err :: "pyerr + 'a \<Rightarrow> ('a \<Rightarrow> pyerr + 'b) \<Rightarrow> pyerr + 'b" where
  "bind_err r f = (case r of Inl e \<Rightarrow> Inl e | Inr v \<Rightarrow> f v)"

text \<open>
  A float of a tensor is a finite number, an infinity or not-a-number. \<open>Fin\<close> carries
  the exact real: rounding, and the overflow of an operation on finite operands, are
  not modelled. The special values follow IEEE 754, which torch follows: they are what
  a division by zero produces, without any exception.
\<close>

datatype fl = Fin real | PInf | NInf | NaN

fun is_fin :: "fl \<Rightarrow> bool" where
  "is_fin (Fin a) = True"
| "is_fin x = False"

fun fl_neg :: "fl \<Rightarrow> fl" where
  "fl_neg (Fin a) = Fin (- a)"
| "fl_neg PInf = NInf"
| "fl_neg NInf = PInf"
| "fl_neg NaN = NaN"

fun fl_add :: "fl \<Rightarrow> fl \<Rightarrow> fl" where
  "fl_add (Fin a) (Fin b) = Fin (a + b)"
| "fl_add NaN y = NaN"
| "fl_add x NaN = NaN"
| "fl_add PInf NInf = NaN"
| "fl_add NInf PInf = NaN"
| "fl_add PInf y = PInf"
| "fl_add x PInf = PInf"
| "fl_add NInf y = NInf"
| "fl_add x NInf = NInf"

definition fl_sub :: "fl \<Rightarrow> fl \<Rightarrow> fl" where
  "fl_sub x y = fl_add x (fl_neg y)"

definition inf_signed :: "bool \<Rightarrow> fl" where
  "inf_signed positive = (if positive then PInf else NInf)"

fun fl_mul :: "fl \<Rightarrow> fl \<Rightarrow> fl" where
  "fl_mul (Fin a) (Fin b) = Fin (a * b)"
| "fl_mul NaN y = NaN"
| "fl_mul x NaN = NaN"
| "fl_mul (Fin a) PInf = (if a = 0 then NaN else inf_signed (0 < a))"
| "fl_mul (Fin a) NInf = (if a = 0 then NaN else inf_signed (a < 0))"
| "fl_mul PInf (Fin b) = (if b = 0 then NaN else inf_signed (0 < b))"
| "fl_mul NInf (Fin b) = (if b = 0 then NaN else inf_signed (b < 0))"
| "fl_mul PInf PInf = PInf"
| "fl_mul PInf NInf = NInf"
| "fl_mul NInf PInf = NInf"
| "fl_mul NInf NInf = PInf"

text \<open>\<^verbatim>\<open>x ** n\<close> for a Python int \<open>n \<ge> 0\<close>: the power 0 of every float, NaN too, is 1.\<close>

fun fl_pow :: "fl \<Rightarrow> nat \<Rightarrow> fl" where
  "fl_pow x 0 = Fin 1"
| "fl_pow (Fin a) n = Fin (a ^ n)"
| "fl_pow PInf n = PInf"
| "fl_pow NInf n = (if even n then PInf else NInf)"
| "fl_pow NaN n = NaN"

text \<open>The quotient of two finite floats: a zero divisor gives an infinity or NaN.\<close>

definition fl_div :: "real \<Rightarrow> real \<Rightarrow> fl" where
  "fl_div a b =
     (if b \<noteq> 0 then Fin (a / b)
      else if 0 < a then PInf else if a < 0 then NInf else NaN)"

text \<open>A float divided by a count, as \<^verbatim>\<open>mean\<close> does with the sum.\<close>

fun fl_div_count :: "fl \<Rightarrow> nat \<Rightarrow> fl" where
  "fl_div_count (Fin s) n = fl_div s (real n)"
| "fl_div_count x n = x"

definition fl_sum :: "fl list \<Rightarrow> fl" where
  "fl_sum xs = foldr fl_add xs (Fin 0)"

text \<open>\<^verbatim>\<open>t.mean()\<close> of a 1-d float tensor; NaN on the empty tensor.\<close>

definition fl_mean :: "fl list \<Rightarrow> fl" where
  "fl_mean xs = fl_div_count (fl_sum xs) (length xs)"

text \<open>
  An elementwise operation of two 1-d tensors: the shapes must agree, except that a
  tensor of one element is broadcast; torch raises \<^verbatim>\<open>RuntimeError\<close> otherwise.
\<close>

definition elementwise :: "('a \<Rightarrow> 'b \<Rightarrow> 'c) \<Rightarrow> 'a list \<Rightarrow> 'b list \<Rightarrow> pyerr + 'c list" where
  "elementwise f xs ys =
     (if length xs = length ys then Inr (map2 f xs ys)
      else if length xs = 1 then Inr (map (f (hd xs)) ys)
      else if length ys = 1 then Inr (map (\<lambda>x. f x (hd ys)) xs)
      else Inl RuntimeError)"

section \<open>The metric engine (function \<^verbatim>\<open>test\<close>, lines 235 to 280)\<close>

subsection \<open>Strings\<close>

text \<open>\<^verbatim>\<open>s.startswith(p)\<close>, \<^verbatim>\<open>p in s\<close> and \<^verbatim>\<open>s.split(sep)\<close> for a separator of one character.\<close>

fun startswith :: "string \<Rightarrow> string \<Rightarrow> bool" where
  "startswith s [] = True"
| "startswith [] (c # p) = False"
| "startswith (x # s) (c # p) = (x = c \<and> startswith s p)"

fun contains :: "string \<Rightarrow> string \<Rightarrow> bool" where
  "contains [] p = (p = [])"
| "contains (x # s) p = (startswith (x # s) p \<or> contains s p)"

fun split_str :: "char \<Rightarrow> string \<Rightarrow> string list" where
  "split_str sep [] = [[]]"
| "split_str sep (c # s) =
     (if c = sep then [] # split_str sep s
      else (case split_str sep s of [] \<Rightarrow> [[c]] | p # ps \<Rightarrow> (c # p) # ps))"

text \<open>
  \<^verbatim>\<open>int(s)\<close> on a string without underscores (every string \<^verbatim>\<open>test\<close> converts is a
  piece of a split at \<^verbatim>\<open>_\<close>): whitespace around, an optional sign, and one decimal
  digit or more. Strings are ASCII here.
\<close>

definition is_space :: "char \<Rightarrow> bool" where
  "is_space c = ((of_char c :: nat) \<in> {9, 10, 11, 12, 13, 28, 29, 30, 31, 32})"

definition is_digit :: "char \<Rightarrow> bool" where
  "is_digit c = (48 \<le> (of_char c :: nat) \<and> (of_char c :: nat) \<le> 57)"

definition digit_val :: "char \<Rightarrow> int" where
  "digit_val c = int (of_char c) - 48"

definition strip :: "string \<Rightarrow> string" where
  "strip s = rev (dropWhile is_space (rev (dropWhile is_space s)))"

definition digits_val :: "string \<Rightarrow> pyerr + int" where
  "digits_val ds =
     (if ds \<noteq> [] \<and> list_all is_digit ds
      then Inr (foldl (\<lambda>a c. 10 * a + digit_val c) 0 ds)
      else Inl InvalidLiteral)"

definition py_int :: "string \<Rightarrow> pyerr + int" where
  "py_int s =
     (case strip s of
        [] \<Rightarrow> Inl InvalidLiteral
      | c # ds \<Rightarrow>
          if c = CHR ''+'' then digits_val ds
          else if c = CHR ''-'' then bind_err (digits_val ds) (\<lambda>v. Inr (- v))
          else digits_val (c # ds))"

subsection \<open>The scores\<close>

text \<open>
  \<^verbatim>\<open>_ranking.float().mean()\<close>, \<^verbatim>\<open>(1 / _ranking.float()).mean()\<close> and
  \<^verbatim>\<open>(_ranking <= threshold).float().mean()\<close>. The tensors of ranks and of numbers of
  negatives hold machine integers of 64 bits; no operation of the metric engine on
  them can leave that range but \<^verbatim>\<open>_ranking - 1\<close> at the least value, so they are
  \<open>int\<close> here.
\<close>

definition mr :: "int list \<Rightarrow> fl" where
  "mr ranking = fl_mean (map (\<lambda>r. Fin (real_of_int r)) ranking)"

definition mrr :: "int list \<Rightarrow> fl" where
  "mrr ranking = fl_mean (map (\<lambda>r. fl_div 1 (real_of_int r)) ranking)"

definition hits_at :: "int \<Rightarrow> int list \<Rightarrow> fl" where
  "hits_at threshold ranking =
     fl_mean (map (\<lambda>r. Fin (if r \<le> threshold then 1 else 0)) ranking)"

text \<open>\<^verbatim>\<open>math.factorial\<close> raises on a negative number.\<close>

definition py_factorial :: "int \<Rightarrow> pyerr + nat" where
  "py_factorial n = (if n < 0 then Inl FactorialNegative else Inr (fact (nat n)))"

text \<open>
  Lines 263 to 267: \<^verbatim>\<open>math.factorial(num_sample - 1) / math.factorial(i) /
  math.factorial(num_sample - i - 1)\<close>, the factorials taken from left to right.
\<close>

definition num_comb :: "int \<Rightarrow> int \<Rightarrow> pyerr + real" where
  "num_comb num_sample i =
     bind_err (py_factorial (num_sample - 1)) (\<lambda>a.
     bind_err (py_factorial i) (\<lambda>b.
     bind_err (py_factorial (num_sample - i - 1)) (\<lambda>c.
     Inr (real a / real b / real c))))"

text \<open>Line 259: \<^verbatim>\<open>fp_rate = (_ranking - 1).float() / _num_neg\<close>, with no test of the divisor.\<close>

definition fp_rate :: "int list \<Rightarrow> int list \<Rightarrow> pyerr + fl list" where
  "fp_rate ranking num_neg =
     elementwise (\<lambda>r n. fl_div (real_of_int (r - 1)) (real_of_int n)) ranking num_neg"

text \<open>
  The summand of lines 268 to 272 for one query, and the variable \<^verbatim>\<open>score\<close> of the
  loop of line 261: \<open>None\<close> is the Python integer 0 it starts from, \<open>Some t\<close> a tensor.
\<close>

definition term_at :: "real \<Rightarrow> int \<Rightarrow> int \<Rightarrow> fl \<Rightarrow> fl" where
  "term_at c num_sample i x =
     fl_mul (fl_mul (Fin c) (fl_pow x (nat i)))
            (fl_pow (fl_sub (Fin 1) x) (nat (num_sample - i - 1)))"

definition add_score :: "fl list option \<Rightarrow> fl list \<Rightarrow> fl list" where
  "add_score score t =
     (case score of None \<Rightarrow> map (fl_add (Fin 0)) t | Some s \<Rightarrow> map2 fl_add s t)"

fun unbiased_loop :: "int \<Rightarrow> fl list \<Rightarrow> int list \<Rightarrow> fl list option \<Rightarrow> pyerr + fl list option" where
  "unbiased_loop num_sample rate [] score = Inr score"
| "unbiased_loop num_sample rate (i # is) score =
     bind_err (num_comb num_sample i) (\<lambda>c.
       unbiased_loop num_sample rate is
         (Some (add_score score (map (term_at c num_sample i) rate))))"

text \<open>
  Lines 259 to 273. After a loop of no round (\<open>threshold \<le> 0\<close>) \<^verbatim>\<open>score\<close> is still the
  integer 0, which has no \<^verbatim>\<open>mean\<close>.
\<close>

definition hits_unbiased :: "int \<Rightarrow> int \<Rightarrow> int list \<Rightarrow> int list \<Rightarrow> pyerr + fl" where
  "hits_unbiased threshold num_sample ranking num_neg =
     bind_err (fp_rate ranking num_neg) (\<lambda>rate.
     bind_err (unbiased_loop num_sample rate (map int [0 ..< nat threshold]) None) (\<lambda>score.
       case score of None \<Rightarrow> Inl AttributeError | Some t \<Rightarrow> Inr (fl_mean t)))"

text \<open>
  Lines 249 to 275: the new value of the variable \<^verbatim>\<open>score\<close>, or \<open>None\<close> when no
  branch of the \<^verbatim>\<open>if\<close> chain is taken and the variable is left as it was.
\<close>

definition compute_score :: "string \<Rightarrow> int list \<Rightarrow> int list \<Rightarrow> pyerr + fl option" where
  "compute_score metric_name ranking num_neg =
     (if metric_name = ''mr'' then Inr (Some (mr ranking))
      else if metric_name = ''mrr'' then Inr (Some (mrr ranking))
      else if startswith metric_name ''hits@'' then
        (let values = split_str (CHR ''_'') (drop 5 metric_name) in
         bind_err (py_int (values ! 0)) (\<lambda>threshold.
           if 1 < length values then
             bind_err (py_int (values ! 1)) (\<lambda>num_sample.
             bind_err (hits_unbiased threshold num_sample ranking num_neg) (\<lambda>s.
               Inr (Some s)))
           else Inr (Some (hits_at threshold ranking))))
      else Inr None)"

subsection \<open>Metric names\<close>

text \<open>
  The decimal numeral of a natural number, as it is written in a metric name such as
  \<^verbatim>\<open>hits@10\<close> or \<^verbatim>\<open>hits@10_50\<close>. It serves to state the properties of the metric
  engine on names, and is not part of the program.
\<close>

fun dec :: "nat \<Rightarrow> string" where
  "dec n = (if n < 10 then [char_of (48 + n)] else dec (n div 10) @ [char_of (48 + n mod 10)])"

text \<open>
  The estimator as the specification writes it, for one query of false-positive rate
  \<open>p\<close>: the sum over \<open>i < K\<close> of \<open>C(S - 1, i) p\<^sup>i (1 - p)\<^bsup>S - 1 - i\<^esup>\<close>. Both definitions
  follow the specification, not the program; \<open>n choose k\<close> is the binomial coefficient.
\<close>

definition summand :: "nat \<Rightarrow> nat \<Rightarrow> real \<Rightarrow> real" where
  "summand S i p = real ((S - 1) choose i) * p ^ i * (1 - p) ^ (S - 1 - i)"

definition binom_sum :: "nat \<Rightarrow> nat \<Rightarrow> real \<Rightarrow> real" where
  "binom_sum S K p = (\<Sum>i<K. summand S i p)"

text \<open>The metric name \<^verbatim>\<open>hits@K\<close> and the metric name \<^verbatim>\<open>hits@K_S\<close>.\<close>

definition hits_name :: "nat \<Rightarrow> string" where
  "hits_name K = ''hits@'' @ dec K"

definition hits_name_sampled :: "nat \<Rightarrow> nat \<Rightarrow> string" where
  "hits_name_sampled K S = ''hits@'' @ dec K @ ''_'' @ dec S"

section \<open>The evaluation pass (function \<^verbatim>\<open>test\<close>, lines 161 to 233)\<close>

subsection \<open>The local vectors of a worker\<close>

text \<open>
  What one round of the loop of line 179 adds to the lists: the ranks and the numbers
  of negatives of the batch for the tail and for the head corruption, as
  \<^verbatim>\<open>tasks.compute_ranking\<close> and the sums of the masks give them. The model, the sampling
  and the masks are outside of this file.
\<close>

record batch_out =
  t_ranking :: "int list"
  h_ranking :: "int list"
  num_t_negative :: "int list"
  num_h_negative :: "int list"

text \<open>\<^verbatim>\<open>torch.cat\<close> raises on an empty list of tensors.\<close>

definition torch_cat :: "'a list list \<Rightarrow> pyerr + 'a list" where
  "torch_cat ts = (if ts = [] then Inl RuntimeError else Inr (concat ts))"

text \<open>
  Lines 200, 201, 206 and 207: the local \<^verbatim>\<open>ranking\<close>, \<^verbatim>\<open>num_negative\<close>, \<^verbatim>\<open>tail_ranking\<close>
  and \<^verbatim>\<open>num_tail_neg\<close> of a worker.
\<close>

record local_eval =
  loc_ranking :: "int list"
  loc_num_negative :: "int list"
  loc_tail_ranking :: "int list"
  loc_num_tail_neg :: "int list"

definition evaluate_batches :: "batch_out list \<Rightarrow> pyerr + local_eval" where
  "evaluate_batches bs =
     bind_err (torch_cat (concat (map (\<lambda>b. [t_ranking b, h_ranking b]) bs))) (\<lambda>r.
     bind_err (torch_cat (concat (map (\<lambda>b. [num_t_negative b, num_h_negative b]) bs))) (\<lambda>n.
     bind_err (torch_cat (map t_ranking bs)) (\<lambda>rt.
     bind_err (torch_cat (map num_t_negative bs)) (\<lambda>nt.
       Inr \<lparr>loc_ranking = r, loc_num_negative = n,
            loc_tail_ranking = rt, loc_num_tail_neg = nt\<rparr>))))"

subsection \<open>The aggregation across the workers\<close>

text \<open>
  \<^verbatim>\<open>dist.all_reduce(t, op=SUM)\<close>: every worker gets the elementwise sum of the buffers of
  all the workers, given here in the order of the ranks. The buffers of one call have
  the same length. The function is written for every type with a zero and a commutative sum: the
  lengths are natural numbers, the entries machine integers of 64 bits, whose sum
  wraps around, or unbounded integers.
\<close>

fun all_reduce_sum :: "'a::comm_monoid_add list list \<Rightarrow> 'a list" where
  "all_reduce_sum [] = []"
| "all_reduce_sum [b] = b"
| "all_reduce_sum (b # bs) = map2 (+) b (all_reduce_sum bs)"

text \<open>The reduction is made only \<^verbatim>\<open>if world_size > 1\<close>; a lone worker keeps its buffer.\<close>

definition sync :: "nat \<Rightarrow> 'a::comm_monoid_add list list \<Rightarrow> 'a list" where
  "sync rank bufs = (if 1 < length bufs then all_reduce_sum bufs else bufs ! rank)"

text \<open>Lines 202 and 203: a zero vector with the local count at the index of the worker.\<close>

definition size_buffer :: "nat \<Rightarrow> nat \<Rightarrow> nat \<Rightarrow> nat list" where
  "size_buffer world_size rank n = (replicate world_size 0)[rank := n]"

text \<open>\<^verbatim>\<open>t.cumsum(0)\<close>.\<close>

fun cumsum_from :: "nat \<Rightarrow> nat list \<Rightarrow> nat list" where
  "cumsum_from acc [] = []"
| "cumsum_from acc (x # xs) = (acc + x) # cumsum_from (acc + x) xs"

definition cumsum :: "nat list \<Rightarrow> nat list" where
  "cumsum xs = cumsum_from 0 xs"

text \<open>
  \<^verbatim>\<open>buf[a:b] = src\<close> for 1-d tensors: the bounds are clipped to the buffer, the source
  must have the length of the slice or one element, which is then repeated.
\<close>

definition slice_assign :: "'a list \<Rightarrow> nat \<Rightarrow> nat \<Rightarrow> 'a list \<Rightarrow> pyerr + 'a list" where
  "slice_assign buf a b src =
     (let lo = min a (length buf); hi = max lo (min b (length buf)); k = hi - lo in
      if length src = k then Inr (take lo buf @ src @ drop hi buf)
      else if length src = 1 then Inr (take lo buf @ replicate k (hd src) @ drop hi buf)
      else Inl RuntimeError)"

text \<open>
  Lines 215 to 217: the zero vector of the global length with the local vector in the
  slice of the worker.
\<close>

definition padded :: "nat list \<Rightarrow> nat \<Rightarrow> 'a::zero list \<Rightarrow> pyerr + 'a list" where
  "padded sizes rank v =
     (let cum_size = cumsum sizes in
      slice_assign (replicate (sum_list sizes) 0)
        (cum_size ! rank - sizes ! rank) (cum_size ! rank) v)"

fun map_err :: "('a \<Rightarrow> pyerr + 'b) \<Rightarrow> 'a list \<Rightarrow> pyerr + 'b list" where
  "map_err f [] = Inr []"
| "map_err f (x # xs) =
     bind_err (f x) (\<lambda>y. bind_err (map_err f xs) (\<lambda>ys. Inr (y # ys)))"

text \<open>
  The vector that the worker \<open>rank\<close> holds after the reduction of the padded vectors,
  when the workers hold the local vectors \<open>vs\<close> and the size vector \<open>sizes\<close>. A worker
  that raises stops the pass.
\<close>

definition all_gather :: "nat \<Rightarrow> nat list \<Rightarrow> 'a::comm_monoid_add list list \<Rightarrow> pyerr + 'a list" where
  "all_gather rank sizes vs =
     bind_err (map_err (\<lambda>r. padded sizes r (vs ! r)) [0 ..< length vs]) (\<lambda>bufs.
       Inr (sync rank bufs))"

text \<open>
  Lines 202 to 233 on the worker \<open>rank\<close>, from the local vectors of all the workers:
  \<^verbatim>\<open>all_size\<close> counts the local \<^verbatim>\<open>ranking\<close> and serves for \<^verbatim>\<open>num_negative\<close> too, and
  \<^verbatim>\<open>all_size_t\<close> counts \<^verbatim>\<open>tail_ranking\<close> and serves for \<^verbatim>\<open>num_tail_neg\<close> too.
\<close>

record aggregates =
  all_ranking :: "int list"
  all_num_negative :: "int list"
  all_ranking_t :: "int list"
  all_num_negative_t :: "int list"

definition aggregate :: "nat \<Rightarrow> local_eval list \<Rightarrow> pyerr + aggregates" where
  "aggregate rank locals =
     (let world_size = length locals in
      if \<not> rank < world_size then Inl IndexError
      else
        let all_size = sync rank
              (map (\<lambda>r. size_buffer world_size r (length (loc_ranking (locals ! r))))
                 [0 ..< world_size]);
            all_size_t = sync rank
              (map (\<lambda>r. size_buffer world_size r (length (loc_tail_ranking (locals ! r))))
                 [0 ..< world_size])
        in
        bind_err (all_gather rank all_size (map loc_ranking locals)) (\<lambda>ar.
        bind_err (all_gather rank all_size (map loc_num_negative locals)) (\<lambda>an.
        bind_err (all_gather rank all_size_t (map loc_tail_ranking locals)) (\<lambda>art.
        bind_err (all_gather rank all_size_t (map loc_num_tail_neg locals)) (\<lambda>ant.
          Inr \<lparr>all_ranking = ar, all_num_negative = an,
               all_ranking_t = art, all_num_negative_t = ant\<rparr>)))))"

section \<open>The metrics of the pass (function \<^verbatim>\<open>test\<close>, lines 235 to 280)\<close>

text \<open>
  Lines 238 to 247: the metric name without its suffix, and the aggregates it is
  computed on. The suffix is looked at only when the name contains \<^verbatim>\<open>-tail\<close>.
\<close>

definition select_aggregate :: "string \<Rightarrow> aggregates \<Rightarrow> pyerr + (string \<times> int list \<times> int list)" where
  "select_aggregate metric ag =
     (if contains metric ''-tail'' then
        (case split_str (CHR ''-'') metric of
           [metric_name, direction] \<Rightarrow>
             if direction \<noteq> ''tail'' then Inl OnlyTailSupported
             else Inr (metric_name, all_ranking_t ag, all_num_negative_t ag)
         | _ \<Rightarrow> Inl UnpackError)
      else Inr (metric, all_ranking ag, all_num_negative ag))"

text \<open>\<^verbatim>\<open>d[k] = v\<close> on a dictionary, which keeps the order of the first insertions.\<close>

fun dict_set :: "'k \<Rightarrow> 'v \<Rightarrow> ('k \<times> 'v) list \<Rightarrow> ('k \<times> 'v) list" where
  "dict_set k v [] = [(k, v)]"
| "dict_set k v ((k', v') # kvs) =
     (if k = k' then (k, v) # kvs else (k', v') # dict_set k v kvs)"

text \<open>
  One round of the loop of line 237. The state is the local variable \<^verbatim>\<open>score\<close>, which
  is unbound (\<open>None\<close>) before its first assignment and keeps its value from one round
  to the next, and the dictionary \<^verbatim>\<open>metrics\<close>. Line 276 reads \<^verbatim>\<open>score\<close>, and raises when it
  is unbound.
\<close>

definition metric_step ::
  "aggregates \<Rightarrow> string \<Rightarrow> fl option \<times> (string \<times> fl) list
     \<Rightarrow> pyerr + (fl option \<times> (string \<times> fl) list)" where
  "metric_step ag metric st =
     bind_err (select_aggregate metric ag) (\<lambda>(metric_name, rk, nn).
     bind_err (compute_score metric_name rk nn) (\<lambda>new.
       case (case new of Some s \<Rightarrow> Some s | None \<Rightarrow> fst st) of
         None \<Rightarrow> Inl UnboundLocalError
       | Some s \<Rightarrow> Inr (Some s, dict_set metric s (snd st))))"

fun metrics_loop ::
  "aggregates \<Rightarrow> string list \<Rightarrow> fl option \<times> (string \<times> fl) list
     \<Rightarrow> pyerr + (fl option \<times> (string \<times> fl) list)" where
  "metrics_loop ag [] st = Inr st"
| "metrics_loop ag (metric # rest) st =
     (case metric_step ag metric st of
        Inl e \<Rightarrow> Inl e
      | Inr st' \<Rightarrow> metrics_loop ag rest st')"

text \<open>
  What \<^verbatim>\<open>test\<close> returns: the mean reciprocal rank, or the dictionary of the metrics when
  \<^verbatim>\<open>return_metrics\<close> is set.
\<close>

datatype test_result = Mrr fl | Metrics "(string \<times> fl) list"

text \<open>
  Lines 235 to 280 on the worker \<open>rank\<close>: the loop over \<^verbatim>\<open>cfg.task.metric\<close> runs on the
  worker 0 only, and line 278 computes \<^verbatim>\<open>mrr\<close> on every worker, after the loop.
\<close>

definition report :: "nat \<Rightarrow> aggregates \<Rightarrow> string list \<Rightarrow> bool \<Rightarrow> pyerr + test_result" where
  "report rank ag metric_names return_metrics =
     bind_err (if rank = 0 then metrics_loop ag metric_names (None, []) else Inr (None, []))
       (\<lambda>st. Inr (if return_metrics then Metrics (snd st) else Mrr (mrr (all_ranking ag))))"

text \<open>
  The function \<^verbatim>\<open>test\<close> on the worker \<open>rank\<close> of \<open>length workers\<close> workers, where
  \<open>workers\<close> gives for every worker what its batches produce.
\<close>

definition test :: "nat \<Rightarrow> batch_out list list \<Rightarrow> string list \<Rightarrow> bool \<Rightarrow> pyerr + test_result" where
  "test rank workers metric_names return_metrics =
     bind_err (map_err evaluate_batches workers) (\<lambda>locals.
     bind_err (aggregate rank locals) (\<lambda>ag.
       report rank ag metric_names return_metrics))"

text \<open>
  The global result of the specification: the concatenation, in the order of the ranks, of
  the local vectors of the workers. The definition follows the specification.
\<close>

definition global_result :: "local_eval list \<Rightarrow> aggregates" where
  "global_result locals =
     \<lparr>all_ranking = concat (map loc_ranking locals),
      all_num_negative = concat (map loc_num_negative locals),
      all_ranking_t = concat (map loc_tail_ranking locals),
      all_num_negative_t = concat (map loc_num_tail_neg locals)\<rparr>"

section \<open>The training loop (function \<^verbatim>\<open>train_and_validate\<close>)\<close>

text \<open>The comparison \<^verbatim>\<open>x > y\<close> of two floats: false whenever one of them is NaN.\<close>

fun fl_gt :: "fl \<Rightarrow> fl \<Rightarrow> bool" where
  "fl_gt NaN y = False"
| "fl_gt x NaN = False"
| "fl_gt (Fin a) (Fin b) = (b < a)"
| "fl_gt PInf PInf = False"
| "fl_gt PInf y = True"
| "fl_gt x PInf = False"
| "fl_gt NInf y = False"
| "fl_gt (Fin a) NInf = True"

text \<open>
  What the loop is given. The parameters of the model are a value of the type \<open>'m\<close>, the
  same on all the workers (the data-parallel wrapper keeps them so). One epoch of
  training (lines 81 to 119: sampling, forward pass, loss, optimizer steps) is a function
  from the parameters and the number of the epoch to the new parameters and the list
  \<^verbatim>\<open>losses\<close> of the batch losses; \<open>test_fn\<close> is the call of \<^verbatim>\<open>test\<close> of line 138, which
  returns the mean reciprocal rank on the validation data. The number of epochs is a
  natural number.
\<close>

record 'm config =
  cfg_rank :: nat
  num_epoch :: nat
  train_epoch :: "'m \<Rightarrow> nat \<Rightarrow> 'm \<times> real list"
  test_fn :: "'m \<Rightarrow> pyerr + fl"

text \<open>
  The state of the loop: the parameters, \<^verbatim>\<open>best_result\<close>, \<^verbatim>\<open>best_epoch\<close> and the
  checkpoint files \<^verbatim>\<open>model_epoch_%d.pth\<close> of the output directory, by their number.
\<close>

record 'm train_state =
  model :: 'm
  best_result :: fl
  best_epoch :: int
  files :: "int \<Rightarrow> 'm option"

text \<open>
  Lines 76 to 126, the epochs of one block: on the worker 0 the mean of \<^verbatim>\<open>losses\<close> is
  taken, which divides by their number.
\<close>

fun train_epochs :: "'m config \<Rightarrow> 'm \<Rightarrow> nat list \<Rightarrow> pyerr + 'm" where
  "train_epochs cfg m [] = Inr m"
| "train_epochs cfg m (epoch # es) =
     (case train_epoch cfg m epoch of
        (m', losses) \<Rightarrow>
          if cfg_rank cfg = 0 \<and> losses = [] then Inl ZeroDivisionError
          else train_epochs cfg m' es)"

text \<open>
  Lines 75 to 141, one block starting at the epoch \<open>i\<close>: training, the checkpoint named
  by the last epoch of the block, the evaluation, and the comparison with the best result
  so far.
\<close>

definition train_block :: "'m config \<Rightarrow> nat \<Rightarrow> 'm train_state \<Rightarrow> nat \<Rightarrow> pyerr + 'm train_state" where
  "train_block cfg step st i =
     bind_err (train_epochs cfg (model st) [i ..< min (num_epoch cfg) (i + step)]) (\<lambda>m.
       let epoch = min (num_epoch cfg) (i + step);
           saved = (files st)(int epoch \<mapsto> m)
       in bind_err (test_fn cfg m) (\<lambda>result.
            if fl_gt result (best_result st)
            then Inr \<lparr>model = m, best_result = result, best_epoch = int epoch, files = saved\<rparr>
            else Inr \<lparr>model = m, best_result = best_result st,
                      best_epoch = best_epoch st, files = saved\<rparr>))"

fun run_blocks :: "'m config \<Rightarrow> nat \<Rightarrow> 'm train_state \<Rightarrow> nat list \<Rightarrow> pyerr + 'm train_state" where
  "run_blocks cfg step st [] = Inr st"
| "run_blocks cfg step st (i # is) =
     (case train_block cfg step st i of
        Inl e \<Rightarrow> Inl e
      | Inr st' \<Rightarrow> run_blocks cfg step st' is)"

text \<open>\<^verbatim>\<open>range(0, n, step)\<close> for a positive step.\<close>

definition range_step :: "nat \<Rightarrow> nat \<Rightarrow> nat list" where
  "range_step n step = map (\<lambda>k. k * step) [0 ..< (n + step - 1) div step]"

text \<open>
  The function, from the files of the output directory and the parameters at the call to
  the parameters at the return: \<^verbatim>\<open>step = math.ceil(num_epoch / 10)\<close>, the blocks, and the
  load of the checkpoint of \<^verbatim>\<open>best_epoch\<close>, which fails when there is no such file.
\<close>

definition train_and_validate :: "'m config \<Rightarrow> (int \<Rightarrow> 'm option) \<Rightarrow> 'm \<Rightarrow> pyerr + 'm" where
  "train_and_validate cfg fs m =
     (if num_epoch cfg = 0 then Inr m
      else
        let step = (num_epoch cfg + 9) div 10 in
        bind_err (run_blocks cfg step
                    \<lparr>model = m, best_result = NInf, best_epoch = - 1, files = fs\<rparr>
                    (range_step (num_epoch cfg) step)) (\<lambda>st.
          case files st (best_epoch st) of
            None \<Rightarrow> Inl FileNotFoundError
          | Some m' \<Rightarrow> Inr m'))"

text \<open>
  For the statement of the properties: the parameters after the epochs \<open>es\<close>, the number
  of blocks, the last epoch of the block \<open>k\<close> (the blocks are counted from 1; 0 is the
  start) and the parameters after the block \<open>k\<close>.
\<close>

definition after_epochs :: "'m config \<Rightarrow> 'm \<Rightarrow> nat list \<Rightarrow> 'm" where
  "after_epochs cfg m es = foldl (\<lambda>m e. fst (train_epoch cfg m e)) m es"

definition block_step :: "'m config \<Rightarrow> nat" where
  "block_step cfg = (num_epoch cfg + 9) div 10"

definition num_blocks :: "'m config \<Rightarrow> nat" where
  "num_blocks cfg = length (range_step (num_epoch cfg) (block_step cfg))"

definition boundary :: "'m config \<Rightarrow> nat \<Rightarrow> nat" where
  "boundary cfg k = min (num_epoch cfg) (k * block_step cfg)"

definition trained :: "'m config \<Rightarrow> 'm \<Rightarrow> nat \<Rightarrow> 'm" where
  "trained cfg m k = after_epochs cfg m [0 ..< boundary cfg k]"

text \<open>
  The invariant of the loop over the blocks, after \<open>n\<close> blocks from the parameters \<open>m\<close>,
  when the block \<open>k\<close> is evaluated at \<open>v k\<close>.
\<close>

definition loop_inv :: "'m config \<Rightarrow> 'm \<Rightarrow> (nat \<Rightarrow> real) \<Rightarrow> nat \<Rightarrow> 'm train_state \<Rightarrow> bool" where
  "loop_inv cfg m v n st \<longleftrightarrow>
     model st = trained cfg m n
     \<and> (\<forall>k. 1 \<le> k \<and> k \<le> n \<longrightarrow> files st (int (boundary cfg k)) = Some (trained cfg m k))
     \<and> ((n = 0 \<and> best_result st = NInf)
        \<or> (\<exists>j. 1 \<le> j \<and> j \<le> n \<and> best_result st = Fin (v j)
               \<and> best_epoch st = int (boundary cfg j)
               \<and> (\<forall>k. 1 \<le> k \<and> k \<le> n \<longrightarrow> v k \<le> v j)
               \<and> (\<forall>k. 1 \<le> k \<and> k < j \<longrightarrow> v k < v j)))"

section \<open>Properties\<close>

subsection \<open>Floats and numerals\<close>

declare dec.simps [simp del]

lemma fl_pow_Fin: "fl_pow (Fin a) n = Fin (a ^ n)"
  by (cases n) simp_all

lemma fl_sum_Fin: "fl_sum (map Fin xs) = Fin (sum_list xs)"
  by (induction xs) (simp_all add: fl_sum_def)

lemma fl_mean_Fin: "xs \<noteq> [] \<Longrightarrow> fl_mean (map Fin xs) = Fin (sum_list xs / real (length xs))"
  by (simp add: fl_mean_def fl_sum_Fin fl_div_def)

lemma fl_mean_map_Fin:
  "xs \<noteq> [] \<Longrightarrow> fl_mean (map (\<lambda>x. Fin (f x)) xs) = Fin ((\<Sum>x\<leftarrow>xs. f x) / real (length xs))"
  using fl_mean_Fin [of "map f xs"] by (simp add: comp_def)

lemma digit_char: "d < 10 \<Longrightarrow> of_char (char_of (48 + d :: nat)) = (48 + d :: nat)"
  by simp

lemma dec_nonempty: "dec n \<noteq> []"
  by (subst dec.simps) simp

lemma dec_digits: "list_all is_digit (dec n)"
proof (induction n rule: dec.induct)
  case (1 n)
  show ?case
  proof (cases "n < 10")
    case True
    then show ?thesis by (subst dec.simps) (simp add: is_digit_def)
  next
    case False
    have "n mod 10 < 10" by simp
    then have "is_digit (char_of (48 + n mod 10))"
      unfolding is_digit_def by (simp only: digit_char) simp
    with False 1 show ?thesis by (subst dec.simps) simp
  qed
qed

lemma foldl_digits_snoc:
  "foldl (\<lambda>a c. 10 * a + digit_val c) a0 (ds @ [c]) = 10 * foldl (\<lambda>a c. 10 * a + digit_val c) a0 ds + digit_val c"
  by simp

lemma dec_value: "foldl (\<lambda>a c. 10 * a + digit_val c) 0 (dec n) = int n"
proof (induction n rule: dec.induct)
  case (1 n)
  show ?case
  proof (cases "n < 10")
    case True
    then show ?thesis by (subst dec.simps) (simp add: digit_val_def)
  next
    case False
    have m: "n mod 10 < 10" by simp
    have "digit_val (char_of (48 + n mod 10)) = int (n mod 10)"
      unfolding digit_val_def digit_char [OF m] by simp
    moreover have "dec n = dec (n div 10) @ [char_of (48 + n mod 10)]"
      using False by (subst dec.simps) simp
    ultimately show ?thesis
      using False 1 by (simp add: zmod_int zdiv_int)
  qed
qed

lemma digits_val_dec: "digits_val (dec n) = Inr (int n)"
  by (simp add: digits_val_def dec_nonempty dec_digits dec_value)

lemma digit_not_space: "is_digit c \<Longrightarrow> \<not> is_space c"
  by (auto simp: is_digit_def is_space_def)

lemma strip_id: "s \<noteq> [] \<Longrightarrow> \<not> is_space (hd s) \<Longrightarrow> \<not> is_space (last s) \<Longrightarrow> strip s = s"
proof -
  assume a: "s \<noteq> []" "\<not> is_space (hd s)" "\<not> is_space (last s)"
  then have "dropWhile is_space s = s" by (cases s) simp_all
  moreover have "dropWhile is_space (rev s) = rev s"
    using a by (cases "rev s") (simp_all add: last_rev [symmetric] hd_rev)
  ultimately show ?thesis by (simp add: strip_def)
qed

lemma py_int_digits:
  assumes "ds \<noteq> []" "list_all is_digit ds"
  shows "py_int ds = digits_val ds"
proof -
  from assms obtain c cs where ds: "ds = c # cs" by (cases ds) auto
  have h: "is_digit (hd ds)" using assms by (cases ds) auto
  have l: "is_digit (last ds)" using assms by (auto simp: list_all_iff)
  have s: "strip ds = ds" using assms h l by (simp add: strip_id digit_not_space)
  have "c \<noteq> CHR ''+''" "c \<noteq> CHR ''-''" using h ds by (auto simp: is_digit_def)
  then show ?thesis using s ds by (simp add: py_int_def)
qed

lemma py_int_dec: "py_int (dec n) = Inr (int n)"
  by (simp add: py_int_digits dec_nonempty dec_digits digits_val_dec)

lemma split_str_none: "sep \<notin> set s \<Longrightarrow> split_str sep s = [s]"
  by (induction s) auto

lemma split_str_one: "sep \<notin> set a \<Longrightarrow> sep \<notin> set b \<Longrightarrow> split_str sep (a @ sep # b) = [a, b]"
  by (induction a) (auto simp: split_str_none)

lemma dec_no_char: "\<not> is_digit c \<Longrightarrow> c \<notin> set (dec n)"
  using dec_digits [of n] by (auto simp: list_all_iff)

lemma dec_no_underscore: "CHR ''_'' \<notin> set (dec n)"
  by (rule dec_no_char) (simp add: is_digit_def)

lemma compute_score_hits:
  "compute_score (''hits@'' @ dec K) ranking num_neg = Inr (Some (hits_at (int K) ranking))"
  by (simp add: compute_score_def split_str_none dec_no_underscore py_int_dec bind_err_def)

lemma compute_score_hits_unbiased:
  "compute_score (''hits@'' @ dec K @ ''_'' @ dec S) ranking num_neg =
     bind_err (hits_unbiased (int K) (int S) ranking num_neg) (\<lambda>s. Inr (Some s))"
  by (simp add: compute_score_def split_str_one dec_no_underscore py_int_dec bind_err_def)

subsection \<open>The exact metrics\<close>

text \<open>
  Claim C6. On a ranking vector that is not empty and whose ranks are at least 1, the
  metric engine gives for the name \<^verbatim>\<open>mr\<close> the mean of the ranks, for \<^verbatim>\<open>mrr\<close> the mean of
  the reciprocals of the ranks, and for \<^verbatim>\<open>hits@K\<close> the fraction of the queries whose rank
  is at most \<open>K\<close>.
\<close>

theorem metric_engine_mr_mrr_hits:
  assumes "ranking \<noteq> []" and "\<forall>r\<in>set ranking. 1 \<le> r"
  shows "compute_score ''mr'' ranking num_neg =
           Inr (Some (Fin ((\<Sum>r\<leftarrow>ranking. real_of_int r) / real (length ranking))))
       \<and> compute_score ''mrr'' ranking num_neg =
           Inr (Some (Fin ((\<Sum>r\<leftarrow>ranking. 1 / real_of_int r) / real (length ranking))))
       \<and> compute_score (''hits@'' @ dec K) ranking num_neg =
           Inr (Some (Fin (real (length (filter (\<lambda>r. r \<le> int K) ranking)) / real (length ranking))))"
proof -
  have a: "mr ranking = Fin ((\<Sum>r\<leftarrow>ranking. real_of_int r) / real (length ranking))"
    using assms(1) by (simp add: mr_def fl_mean_map_Fin)
  have b0: "map (\<lambda>r. fl_div 1 (real_of_int r)) ranking = map (\<lambda>r. Fin (1 / real_of_int r)) ranking"
    using assms(2) by (auto simp: fl_div_def)
  have b: "mrr ranking = Fin ((\<Sum>r\<leftarrow>ranking. 1 / real_of_int r) / real (length ranking))"
    unfolding mrr_def b0 using assms(1) by (simp add: fl_mean_map_Fin)
  have "(\<Sum>r\<leftarrow>ranking. if r \<le> int K then 1 else 0 :: real) = real (length (filter (\<lambda>r. r \<le> int K) ranking))"
    by (induction ranking) simp_all
  then have c: "hits_at (int K) ranking =
      Fin (real (length (filter (\<lambda>r. r \<le> int K) ranking)) / real (length ranking))"
    using assms(1) by (simp add: hits_at_def fl_mean_map_Fin)
  have m1: "compute_score ''mr'' ranking num_neg = Inr (Some (mr ranking))"
    and m2: "compute_score ''mrr'' ranking num_neg = Inr (Some (mrr ranking))"
    by (simp_all add: compute_score_def)
  show ?thesis
    unfolding m1 m2 compute_score_hits a b c by simp
qed

text \<open>
  The example of claim C6: on the ranking vector \<open>[1, 2, 3, 4]\<close> the engine gives
  \<open>mr = 5/2\<close>, \<open>mrr = (1 + 1/2 + 1/3 + 1/4) / 4 = 25/48\<close>, \<open>hits@1 = 1/4\<close> and
  \<open>hits@2 = 1/2\<close>.
\<close>

theorem metric_engine_example:
  "compute_score ''mr'' [1, 2, 3, 4] [] = Inr (Some (Fin (5 / 2)))
   \<and> compute_score ''mrr'' [1, 2, 3, 4] [] = Inr (Some (Fin (25 / 48)))
   \<and> compute_score ''hits@1'' [1, 2, 3, 4] [] = Inr (Some (Fin (1 / 4)))
   \<and> compute_score ''hits@2'' [1, 2, 3, 4] [] = Inr (Some (Fin (1 / 2)))"
proof -
  have d1: "dec (Suc 0) = ''1''" and d2: "dec 2 = ''2''" by code_simp+
  have r: "[1, 2, 3, 4] \<noteq> ([] :: int list)" "\<forall>r\<in>set [1, 2, 3, 4 :: int]. 1 \<le> r" by simp_all
  show ?thesis
    using metric_engine_mr_mrr_hits [OF r, of "[]" 1] metric_engine_mr_mrr_hits [OF r, of "[]" 2]
    by (simp add: d1 d2)
qed

subsection \<open>The unbiased estimator on finite rates\<close>

lemma bind_err_Inr [simp]: "bind_err (Inr v) f = f v"
  by (simp add: bind_err_def)

lemma bind_err_Inl [simp]: "bind_err (Inl e) f = Inl e"
  by (simp add: bind_err_def)

lemma num_comb_ok:
  assumes "i \<le> n"
  shows "num_comb (int n + 1) (int i) = Inr (real (n choose i))"
proof -
  have "nat (int n - int i) = n - i" using assms by linarith
  then show ?thesis
    using assms by (simp add: num_comb_def py_factorial_def binomial_fact [of i n, where ?'a = real] field_simps)
qed

lemma num_comb_neg:
  assumes "S \<le> i" "0 \<le> i"
  shows "num_comb S i = Inl FactorialNegative"
  using assms by (simp add: num_comb_def py_factorial_def)

lemma unbiased_loop_append:
  "unbiased_loop S rate (xs @ ys) score =
     bind_err (unbiased_loop S rate xs score) (unbiased_loop S rate ys)"
proof (induction xs arbitrary: score)
  case Nil
  show ?case by simp
next
  case (Cons i xs)
  show ?case by (cases "num_comb S i") (simp_all add: Cons)
qed

lemma term_at_Fin:
  "term_at c S i (Fin p) = Fin (c * p ^ nat i * (1 - p) ^ nat (S - i - 1))"
  by (simp add: term_at_def fl_sub_def fl_pow_Fin)

lemma add_score_Fin:
  "add_score (Some (map (\<lambda>p. Fin (f p)) ps)) (map (\<lambda>p. Fin (g p)) ps) = map (\<lambda>p. Fin (f p + g p)) ps"
  by (induction ps) (simp_all add: add_score_def)

lemma add_score_None_Fin:
  "add_score None (map (\<lambda>p. Fin (g p)) ps) = map (\<lambda>p. Fin (g p)) ps"
  by (simp add: add_score_def)

lemma unbiased_loop_Fin:
  assumes "b \<le> S"
  shows "unbiased_loop (int S) (map Fin ps) (map int [a ..< b]) (Some (map (\<lambda>p. Fin (f p)) ps))
       = Inr (Some (map (\<lambda>p. Fin (f p + (\<Sum>i = a ..< b. summand S i p))) ps))"
  using assms
proof (induction "b - a" arbitrary: a f)
  case 0
  then show ?case by simp
next
  case (Suc n)
  then have ab: "a < b" by simp
  then have u: "[a ..< b] = a # [Suc a ..< b]" by (simp add: upt_conv_Cons)
  have aS: "a < S" using ab Suc.prems by simp
  have n: "num_comb (int S) (int a) = Inr (real ((S - 1) choose a))"
    using num_comb_ok [of a "S - 1"] aS by (simp add: of_nat_diff)
  have e: "nat (int S - int a - 1) = S - 1 - a" using aS by linarith
  have t: "map (term_at (real ((S - 1) choose a)) (int S) (int a)) (map Fin ps) = map (\<lambda>p. Fin (summand S a p)) ps"
    by (simp add: term_at_Fin e summand_def comp_def)
  have ih: "unbiased_loop (int S) (map Fin ps) (map int [Suc a ..< b]) (Some (map (\<lambda>p. Fin (f p + summand S a p)) ps))
       = Inr (Some (map (\<lambda>p. Fin (f p + summand S a p + (\<Sum>i = Suc a ..< b. summand S i p))) ps))"
    using Suc.hyps(1) [of "Suc a" "\<lambda>p. f p + summand S a p"] Suc.hyps(2) Suc.prems by simp
  have s: "\<And>p. (\<Sum>i = a ..< b. summand S i p) = summand S a p + (\<Sum>i = Suc a ..< b. summand S i p)"
    using ab by (simp add: sum.atLeast_Suc_lessThan)
  show ?case
    by (simp only: u list.map unbiased_loop.simps n bind_err_Inr t add_score_Fin ih s add.assoc)
qed

lemma fp_rate_Fin:
  assumes "length num_neg = length ranking" "0 \<notin> set num_neg"
  shows "fp_rate ranking num_neg =
         Inr (map Fin (map2 (\<lambda>r n. real_of_int (r - 1) / real_of_int n) ranking num_neg))"
proof -
  have "map2 (\<lambda>r n. fl_div (real_of_int (r - 1)) (real_of_int n)) ranking num_neg
      = map Fin (map2 (\<lambda>r n. real_of_int (r - 1) / real_of_int n) ranking num_neg)"
    using assms
  proof (induction ranking num_neg rule: list_induct2')
    case (4 r rs n ns)
    then show ?case by (simp add: fl_div_def)
  qed simp_all
  then show ?thesis using assms(1) by (simp add: fp_rate_def elementwise_def)
qed

lemma binom_sum_split:
  "1 \<le> K \<Longrightarrow> binom_sum S K p = summand S 0 p + (\<Sum>i = 1 ..< K. summand S i p)"
  unfolding binom_sum_def
  by (simp add: lessThan_atLeast0 sum.atLeast_Suc_lessThan)

lemma unbiased_loop_from_None:
  assumes "1 \<le> K" "K \<le> S"
  shows "unbiased_loop (int S) (map Fin ps) (map int [0 ..< K]) None
       = Inr (Some (map (\<lambda>p. Fin (binom_sum S K p)) ps))"
proof -
  have u: "[0 ..< K] = 0 # [1 ..< K]" using assms(1) by (simp add: upt_conv_Cons)
  have S: "0 < S" using assms by simp
  have n: "num_comb (int S) (int 0) = Inr (real ((S - 1) choose 0))"
    using num_comb_ok [of 0 "S - 1"] S by (simp add: of_nat_diff)
  have e: "nat (int S - 1) = S - Suc 0" using S by linarith
  have t: "map (term_at (real ((S - 1) choose 0)) (int S) (int 0)) (map Fin ps) = map (\<lambda>p. Fin (summand S 0 p)) ps"
    by (simp add: term_at_Fin e summand_def comp_def)
  have r: "unbiased_loop (int S) (map Fin ps) (map int [1 ..< K]) (Some (map (\<lambda>p. Fin (summand S 0 p)) ps))
       = Inr (Some (map (\<lambda>p. Fin (summand S 0 p + (\<Sum>i = 1 ..< K. summand S i p))) ps))"
    using unbiased_loop_Fin [OF assms(2)] by simp
  show ?thesis
    by (simp only: u list.map unbiased_loop.simps n bind_err_Inr t add_score_None_Fin r
        binom_sum_split [OF assms(1)])
qed

lemma hits_unbiased_Fin:
  assumes "1 \<le> K" "K \<le> S" "ranking \<noteq> []" "length num_neg = length ranking"
    "0 \<notin> set num_neg"
  shows "hits_unbiased (int K) (int S) ranking num_neg =
     Inr (Fin ((\<Sum>(r, n) \<leftarrow> zip ranking num_neg. binom_sum S K (real_of_int (r - 1) / real_of_int n))
               / real (length ranking)))"
proof -
  let ?ps = "map2 (\<lambda>r n. real_of_int (r - 1) / real_of_int n) ranking num_neg"
  have ne: "?ps \<noteq> []" using assms(3,4) by (cases ranking; cases num_neg) simp_all
  have len: "length ?ps = length ranking" using assms(4) by simp
  have m: "fl_mean (map (\<lambda>p. Fin (binom_sum S K p)) ?ps)
     = Fin ((\<Sum>p\<leftarrow>?ps. binom_sum S K p) / real (length ranking))"
    using fl_mean_map_Fin [OF ne, of "binom_sum S K"] len by simp
  have sm: "(\<Sum>p\<leftarrow>?ps. binom_sum S K p)
     = (\<Sum>(r, n) \<leftarrow> zip ranking num_neg. binom_sum S K (real_of_int (r - 1) / real_of_int n))"
    by (simp add: comp_def case_prod_unfold)
  show ?thesis
    unfolding hits_unbiased_def fp_rate_Fin [OF assms(4,5)] bind_err_Inr nat_int
      unbiased_loop_from_None [OF assms(1,2)] option.case m sm ..
qed

lemmas engine_defs =
  compute_score_def py_int_def strip_def is_space_def digits_val_def is_digit_def
  digit_val_def hits_unbiased_def fp_rate_def elementwise_def num_comb_def
  py_factorial_def term_at_def add_score_def fl_sub_def fl_mean_def fl_sum_def fl_div_def
  mr_def mrr_def hits_at_def fl_pow_Fin

lemma hits_name_simps:
  "compute_score (hits_name K) ranking num_neg = Inr (Some (hits_at (int K) ranking))"
  "compute_score (hits_name_sampled K S) ranking num_neg =
     bind_err (hits_unbiased (int K) (int S) ranking num_neg) (\<lambda>s. Inr (Some s))"
  by (simp_all only: hits_name_def hits_name_sampled_def compute_score_hits compute_score_hits_unbiased)

subsection \<open>The unbiased estimator, by metric name\<close>




subsection \<open>The estimator on degenerate inputs\<close>

lemma unbiased_loop_total:
  assumes "b \<le> S" "length s = length rate"
  shows "\<exists>t. unbiased_loop (int S) rate (map int [a ..< b]) (Some s) = Inr (Some t)
           \<and> length t = length rate
           \<and> (\<forall>j < length rate. \<not> is_fin (s ! j) \<longrightarrow> \<not> is_fin (t ! j))"
  using assms
proof (induction "b - a" arbitrary: a s)
  case 0
  then show ?case by simp
next
  case (Suc n)
  then have ab: "a < b" by simp
  then have u: "[a ..< b] = a # [Suc a ..< b]" by (simp add: upt_conv_Cons)
  have aS: "a < S" using ab Suc.prems by simp
  have n: "num_comb (int S) (int a) = Inr (real ((S - 1) choose a))"
    using num_comb_ok [of a "S - 1"] aS by (simp add: of_nat_diff)
  define s' where "s' = add_score (Some s) (map (term_at (real ((S - 1) choose a)) (int S) (int a)) rate)"
  have l: "length s' = length rate" using Suc.prems(2) by (simp add: s'_def add_score_def)
  have nf: "\<not> is_fin (s' ! j)" if "j < length s'" "\<not> is_fin (s ! j)" for j
  proof -
    have "\<not> is_fin (fl_add (s ! j) y)" for y using that(2) by (cases "s ! j"; cases y) simp_all
    then show ?thesis using that(1) l Suc.prems(2) by (simp add: s'_def add_score_def)
  qed
  obtain t where t: "unbiased_loop (int S) rate (map int [Suc a ..< b]) (Some s') = Inr (Some t)"
      "length t = length rate"
      "\<forall>j < length rate. \<not> is_fin (s' ! j) \<longrightarrow> \<not> is_fin (t ! j)"
  proof -
    have nn: "n = b - Suc a" using Suc.hyps(2) by simp
    show ?thesis using Suc.hyps(1) [OF nn Suc.prems(1) l] that by blast
  qed
  have "unbiased_loop (int S) rate (map int [a ..< b]) (Some s) = Inr (Some t)"
    by (simp only: u list.map unbiased_loop.simps n bind_err_Inr s'_def [symmetric] t(1))
  moreover have "length t = length rate" using t(2) by simp
  moreover have "\<forall>j < length rate. \<not> is_fin (s ! j) \<longrightarrow> \<not> is_fin (t ! j)"
    using t(2,3) nf l by simp
  ultimately show ?case by blast
qed

lemma unbiased_loop_first:
  assumes "1 \<le> K" "1 \<le> S"
  shows "unbiased_loop (int S) rate (map int [0 ..< K]) None =
         unbiased_loop (int S) rate (map int [1 ..< K])
           (Some (map (\<lambda>x. fl_add (Fin 0) (term_at 1 (int S) 0 x)) rate))"
proof -
  have u: "[0 ..< K] = 0 # [1 ..< K]" using assms(1) by (simp add: upt_conv_Cons)
  have n: "num_comb (int S) (int 0) = Inr (real ((S - 1) choose 0))"
    using num_comb_ok [of 0 "S - 1"] assms(2) by (simp add: of_nat_diff)
  show ?thesis
    by (simp only: u list.map unbiased_loop.simps n bind_err_Inr) (simp add: add_score_def comp_def)
qed

lemma unbiased_loop_returns:
  assumes "1 \<le> K" "K \<le> S"
  shows "\<exists>t. unbiased_loop (int S) rate (map int [0 ..< K]) None = Inr (Some t)
           \<and> length t = length rate
           \<and> (\<forall>j < length rate. 2 \<le> S \<longrightarrow> \<not> is_fin (rate ! j) \<longrightarrow> \<not> is_fin (t ! j))"
proof -
  let ?s = "map (\<lambda>x. fl_add (Fin 0) (term_at 1 (int S) 0 x)) rate"
  have S: "1 \<le> S" using assms by simp
  obtain t where t: "unbiased_loop (int S) rate (map int [1 ..< K]) (Some ?s) = Inr (Some t)"
      "length t = length rate"
      "\<forall>j < length rate. \<not> is_fin (?s ! j) \<longrightarrow> \<not> is_fin (t ! j)"
    using unbiased_loop_total [OF assms(2), of ?s rate 1] by auto
  have nf: "\<not> is_fin (fl_add (Fin 0) (term_at 1 (int S) 0 x))" if nx: "\<not> is_fin x" and S2: "2 \<le> S" for x
  proof -
    obtain m where m: "nat (int S - 1) = Suc m" using S2 by (cases "nat (int S - 1)") auto
    show ?thesis using nx by (cases x) (simp_all add: term_at_def fl_sub_def m inf_signed_def)
  qed
  have "\<forall>j < length rate. 2 \<le> S \<longrightarrow> \<not> is_fin (rate ! j) \<longrightarrow> \<not> is_fin (t ! j)"
    using t(2,3) nf by simp
  then show ?thesis
    using t(1,2) unbiased_loop_first [OF assms(1) S, of rate] by simp
qed

lemma unbiased_loop_raises:
  assumes "S < K" "1 \<le> K"
  shows "unbiased_loop S rate (map int [0 ..< nat K]) None = Inl FactorialNegative"
proof (cases "1 \<le> S")
  case True
  define n where "n = nat S"
  have S: "S = int n" and n: "1 \<le> n" "n < nat K" using True assms by (simp_all add: n_def)
  have "[0 ..< nat K] = [0 ..< n] @ [n ..< nat K]"
    using upt_add_eq_append [of 0 n "nat K - n"] n(2) by simp
  then have u: "[0 ..< nat K] = [0 ..< n] @ n # [Suc n ..< nat K]"
    using n(2) by (simp add: upt_conv_Cons)
  have r: "num_comb (int n) (int n) = Inl FactorialNegative" by (rule num_comb_neg) simp_all
  show ?thesis
  proof (cases "n = 0")
    case True
    then show ?thesis using n by simp
  next
    case False
    obtain t where "unbiased_loop (int n) rate (map int [0 ..< n]) None = Inr (Some t)"
      using unbiased_loop_returns [of n n rate] n(1) by auto
    then show ?thesis unfolding S u by (simp add: unbiased_loop_append r)
  qed
next
  case False
  then have K: "0 < nat K" using assms by simp
  have u: "[0 ..< nat K] = 0 # [1 ..< nat K]" using K by (simp add: upt_conv_Cons)
  have r: "num_comb S (int 0) = Inl FactorialNegative"
    using False by (simp add: num_comb_def py_factorial_def)
  show ?thesis by (simp only: u list.map unbiased_loop.simps r bind_err_Inl)
qed

lemma fp_rate_returns:
  "length num_neg = length ranking \<Longrightarrow>
   fp_rate ranking num_neg =
     Inr (map2 (\<lambda>r n. fl_div (real_of_int (r - 1)) (real_of_int n)) ranking num_neg)"
  by (simp add: fp_rate_def elementwise_def)

lemma fl_add_nonfinite: "\<not> is_fin a \<or> \<not> is_fin b \<Longrightarrow> \<not> is_fin (fl_add a b)"
  by (cases a; cases b) simp_all

lemma fl_sum_nonfinite: "x \<in> set xs \<Longrightarrow> \<not> is_fin x \<Longrightarrow> \<not> is_fin (fl_sum xs)"
proof (induction xs)
  case Nil
  then show ?case by simp
next
  case (Cons y ys)
  have "\<not> is_fin y \<or> \<not> is_fin (foldr fl_add ys (Fin 0))"
    using Cons by (auto simp: fl_sum_def)
  then show ?case unfolding fl_sum_def foldr.simps comp_def by (rule fl_add_nonfinite)
qed

lemma fl_mean_nonfinite: "x \<in> set xs \<Longrightarrow> \<not> is_fin x \<Longrightarrow> \<not> is_fin (fl_mean xs)"
  using fl_sum_nonfinite [of x xs] by (cases "fl_sum xs") (simp_all add: fl_mean_def)

lemma hits_unbiased_returns:
  assumes "1 \<le> K" "K \<le> S" "length num_neg = length ranking"
  shows "\<exists>x. hits_unbiased (int K) (int S) ranking num_neg = Inr x
           \<and> (2 \<le> S \<longrightarrow> 0 \<in> set num_neg \<longrightarrow> \<not> is_fin x)"
proof -
  let ?rate = "map2 (\<lambda>r n. fl_div (real_of_int (r - 1)) (real_of_int n)) ranking num_neg"
  obtain t where t: "unbiased_loop (int S) ?rate (map int [0 ..< K]) None = Inr (Some t)"
      "length t = length ?rate"
      "\<forall>j < length ?rate. 2 \<le> S \<longrightarrow> \<not> is_fin (?rate ! j) \<longrightarrow> \<not> is_fin (t ! j)"
    using unbiased_loop_returns [OF assms(1,2), of ?rate] by blast
  have h: "hits_unbiased (int K) (int S) ranking num_neg = Inr (fl_mean t)"
    unfolding hits_unbiased_def fp_rate_returns [OF assms(3)] bind_err_Inr nat_int t(1) by simp
  have "\<not> is_fin (fl_mean t)" if S: "2 \<le> S" and z: "0 \<in> set num_neg"
  proof -
    obtain j where j: "j < length num_neg" "num_neg ! j = 0"
      using z by (auto simp: in_set_conv_nth)
    have "?rate ! j = fl_div (real_of_int (ranking ! j - 1)) 0"
      using j assms(3) by simp
    then have "\<not> is_fin (?rate ! j)" by (simp add: fl_div_def)
    then have "\<not> is_fin (t ! j)" using t(3) j(1) assms(3) S by simp
    moreover have "t ! j \<in> set t" using t(2) j(1) assms(3) by simp
    ultimately show ?thesis by (rule fl_mean_nonfinite [rotated])
  qed
  then show ?thesis using h by blast
qed




subsection \<open>The division by the number of negatives\<close>



subsection \<open>The estimator against the exact metric\<close>

lemma binom_sum_at_0: "1 \<le> K \<Longrightarrow> binom_sum S K 0 = 1"
proof -
  assume K: "1 \<le> K"
  have "(\<Sum>i = 1 ..< K. summand S i 0) = 0"
    by (rule sum.neutral) (simp add: summand_def)
  then show ?thesis using binom_sum_split [OF K, of S 0] by (simp add: summand_def)
qed

lemma binom_sum_at_1: "K < S \<Longrightarrow> binom_sum S K 1 = 0"
  unfolding binom_sum_def by (rule sum.neutral) (simp add: summand_def)

lemma binom_sum_rank_first:
  assumes "1 \<le> K"
  shows "binom_sum S K (real_of_int (1 - 1) / real_of_int (int S - 1)) = (if (1::int) \<le> int K then 1 else 0)"
proof -
  have p0: "real_of_int (1 - 1) / real_of_int (int S - 1) = 0" by simp
  have "binom_sum S K 0 = 1" using assms by (rule binom_sum_at_0)
  moreover have "(1::int) \<le> int K" using assms by simp
  ultimately show ?thesis unfolding p0 by simp
qed

lemma binom_sum_rank_last:
  assumes "1 \<le> K" "K < S"
  shows "binom_sum S K (real_of_int (int S - 1) / real_of_int (int S - 1)) = (if int S \<le> int K then 1 else 0)"
proof -
  have "int S - 1 \<noteq> 0" using assms by linarith
  then have "real_of_int (int S - 1) \<noteq> 0" by (simp only: of_int_eq_0_iff not_False_eq_True)
  then have p1: "real_of_int (int S - 1) / real_of_int (int S - 1) = 1" by (rule divide_self)
  have "binom_sum S K 1 = 0" using assms(2) by (rule binom_sum_at_1)
  moreover have "\<not> int S \<le> int K" using assms(2) by simp
  ultimately show ?thesis unfolding p1 by simp
qed

lemma binom_sum_rank_extreme:
  assumes "1 \<le> K" "K < S" "r = 1 \<or> r = int S"
  shows "binom_sum S K (real_of_int (r - 1) / real_of_int (int S - 1)) = (if r \<le> int K then 1 else 0)"
  using assms(3) binom_sum_rank_first [OF assms(1), of S] binom_sum_rank_last [OF assms(1,2)]
  by blast




subsection \<open>The aggregation across the workers\<close>

lemma map2_add_zeros_right: "map2 (+) v (replicate (length v) (0::'a::comm_monoid_add)) = v"
  by (induction v) simp_all

lemma map2_add_zeros_left: "map2 (+) (replicate (length v) (0::'a::comm_monoid_add)) v = v"
  by (induction v) simp_all

lemma map2_add_zeros_prefix:
  "map2 (+) (replicate k (0::'a::comm_monoid_add) @ b) (replicate k 0 @ c) = replicate k 0 @ map2 (+) b c"
  by (induction k) simp_all

lemma all_reduce_sum_prepend:
  "bufs \<noteq> [] \<Longrightarrow>
   all_reduce_sum (map ((@) (replicate k (0::'a::comm_monoid_add))) bufs) = replicate k 0 @ all_reduce_sum bufs"
proof (induction bufs rule: all_reduce_sum.induct)
  case 1
  then show ?case by simp
next
  case (2 b)
  show ?case by simp
next
  case (3 b v va)
  then show ?case by (simp add: map2_add_zeros_prefix del: replicate.simps)
qed

text \<open>The padded vector of the worker \<open>r\<close>, in closed form.\<close>

lemma cumsum_from_nth:
  "r < length xs \<Longrightarrow> cumsum_from acc xs ! r = acc + sum_list (take (Suc r) xs)"
proof (induction xs arbitrary: acc r)
  case Nil
  then show ?case by simp
next
  case (Cons x xs)
  then show ?case by (cases r) simp_all
qed

lemma cumsum_nth: "r < length xs \<Longrightarrow> cumsum xs ! r = sum_list (take (Suc r) xs)"
  by (simp add: cumsum_def cumsum_from_nth)

lemma sum_list_split3:
  "r < length (xs :: nat list) \<Longrightarrow>
   sum_list xs = sum_list (take r xs) + xs ! r + sum_list (drop (Suc r) xs)"
proof -
  assume r: "r < length xs"
  have "xs = take r xs @ xs ! r # drop (Suc r) xs" using r by (rule id_take_nth_drop)
  then have "sum_list xs = sum_list (take r xs @ xs ! r # drop (Suc r) xs)" by simp
  then show ?thesis by (simp only: sum_list_append sum_list.Cons add.assoc)
qed

lemma slice_assign_zeros:
  "slice_assign (replicate (a + length v + b) z) a (a + length v) v
   = Inr (replicate a z @ v @ replicate b z)"
proof -
  have lo: "min a (length (replicate (a + length v + b) z)) = a" by simp
  have hi: "max a (min (a + length v) (length (replicate (a + length v + b) z))) = a + length v"
    by simp
  have k: "a + length v - a = length v" by simp
  have tk: "take a (replicate (a + length v + b) z) = replicate a z" by simp
  have dr: "drop (a + length v) (replicate (a + length v + b) z) = replicate b z" by simp
  show ?thesis
    unfolding slice_assign_def Let_def lo hi k tk dr by simp
qed

lemma padded_closed:
  assumes "r < length vs"
  shows "padded (map length vs) r (vs ! r) =
         Inr (replicate (sum_list (map length (take r vs))) 0 @ vs ! r
              @ replicate (sum_list (map length (drop (Suc r) vs))) 0)"
proof -
  have r: "r < length (map length vs)" using assms by simp
  have n: "map length vs ! r = length (vs ! r)" using assms by (rule nth_map)
  have tk: "take (Suc r) (map length vs) = take r (map length vs) @ [length (vs ! r)]"
    unfolding take_Suc_conv_app_nth [OF r] n ..
  have c: "cumsum (map length vs) ! r = sum_list (take r (map length vs)) + length (vs ! r)"
    unfolding cumsum_nth [OF r] tk by simp
  have t: "sum_list (map length vs)
         = sum_list (take r (map length vs)) + length (vs ! r) + sum_list (drop (Suc r) (map length vs))"
    using sum_list_split3 [OF r] unfolding n .
  have lo: "cumsum (map length vs) ! r - map length vs ! r = sum_list (take r (map length vs))"
    unfolding c n by simp
  have "padded (map length vs) r (vs ! r) =
      Inr (replicate (sum_list (take r (map length vs))) 0 @ vs ! r
           @ replicate (sum_list (drop (Suc r) (map length vs))) 0)"
    unfolding padded_def Let_def unfolding lo unfolding c t by (rule slice_assign_zeros)
  then show ?thesis unfolding take_map drop_map .
qed

lemma map_err_Inr:
  "(\<And>x. x \<in> set xs \<Longrightarrow> f x = Inr (g x)) \<Longrightarrow> map_err f xs = Inr (map g xs)"
  by (induction xs) simp_all

lemma padded_buffers_Cons:
  "map (\<lambda>r. replicate (sum_list (map length (take r (v # vs)))) (0::'a::comm_monoid_add) @ (v # vs) ! r
              @ replicate (sum_list (map length (drop (Suc r) (v # vs)))) 0) [0 ..< length (v # vs)]
   = (v @ replicate (length (concat vs)) 0)
     # map ((@) (replicate (length v) 0))
         (map (\<lambda>r. replicate (sum_list (map length (take r vs))) 0 @ vs ! r
              @ replicate (sum_list (map length (drop (Suc r) vs))) 0) [0 ..< length vs])"
proof -
  have u: "[0 ..< length (v # vs)] = 0 # map Suc [0 ..< length vs]"
    by (simp add: upt_conv_Cons map_Suc_upt del: upt_Suc)
  show ?thesis
    unfolding u by (simp add: length_concat replicate_add comp_def del: upt_Suc)
qed

lemma all_reduce_sum_padded:
  "vs \<noteq> [] \<Longrightarrow>
   all_reduce_sum
     (map (\<lambda>r. replicate (sum_list (map length (take r vs))) (0::'a::comm_monoid_add) @ vs ! r
              @ replicate (sum_list (map length (drop (Suc r) vs))) 0) [0 ..< length vs])
   = concat vs"
proof (induction vs)
  case Nil
  then show ?case by simp
next
  case (Cons v vs)
  show ?case
  proof (cases "vs = []")
    case True
    then show ?thesis by simp
  next
    case False
    let ?bufs = "map (\<lambda>r. replicate (sum_list (map length (take r vs))) (0::'a) @ vs ! r
              @ replicate (sum_list (map length (drop (Suc r) vs))) 0) [0 ..< length vs]"
    have ne: "?bufs \<noteq> []" using False by simp
    then obtain b bs where bb: "map ((@) (replicate (length v) (0::'a))) ?bufs = b # bs"
      by (cases "map ((@) (replicate (length v) (0::'a))) ?bufs") auto
    have "all_reduce_sum ((v @ replicate (length (concat vs)) 0) # map ((@) (replicate (length v) 0)) ?bufs)
        = map2 (+) (v @ replicate (length (concat vs)) 0)
            (all_reduce_sum (map ((@) (replicate (length v) 0)) ?bufs))"
      unfolding bb by simp
    also have "\<dots> = map2 (+) (v @ replicate (length (concat vs)) 0) (replicate (length v) 0 @ concat vs)"
      unfolding all_reduce_sum_prepend [OF ne] Cons.IH [OF False] ..
    also have "\<dots> = map2 (+) v (replicate (length v) 0) @ map2 (+) (replicate (length (concat vs)) 0) (concat vs)"
      by simp
    also have "\<dots> = v @ concat vs"
      unfolding map2_add_zeros_right map2_add_zeros_left ..
    finally show ?thesis unfolding padded_buffers_Cons by simp
  qed
qed

lemma all_gather_concat:
  assumes "rank < length vs"
  shows "all_gather rank (map length vs) vs = Inr (concat (vs :: 'a::comm_monoid_add list list))"
proof -
  let ?bufs = "map (\<lambda>r. replicate (sum_list (map length (take r vs))) (0::'a) @ vs ! r
              @ replicate (sum_list (map length (drop (Suc r) vs))) 0) [0 ..< length vs]"
  have m: "map_err (\<lambda>r. padded (map length vs) r (vs ! r)) [0 ..< length vs] = Inr ?bufs"
    by (rule map_err_Inr) (simp add: padded_closed)
  have ne: "vs \<noteq> []" using assms by auto
  have "sync rank ?bufs = concat vs"
  proof (cases "1 < length vs")
    case True
    then show ?thesis by (simp add: sync_def all_reduce_sum_padded [OF ne])
  next
    case False
    then obtain v where v: "vs = [v]" using ne by (cases vs) auto
    then show ?thesis using assms by (simp add: sync_def)
  qed
  then show ?thesis unfolding all_gather_def m by simp
qed

lemma size_buffer_closed:
  "r < W \<Longrightarrow> size_buffer W r x = replicate r 0 @ [x] @ replicate (W - Suc r) 0"
  by (simp add: size_buffer_def upd_conv_take_nth_drop min_def)

lemma singleton_offsets:
  "sum_list (map length (take r (map (\<lambda>i. [f i]) xs))) = min r (length xs)"
  "sum_list (map length (drop r (map (\<lambda>i. [f i]) xs))) = length xs - r"
  by (simp_all add: take_map drop_map comp_def sum_list_triv)

lemma sizes_gathered:
  assumes "rank < W"
  shows "sync rank (map (\<lambda>r. size_buffer W r (n r)) [0 ..< W]) = map n [0 ..< W]"
proof -
  let ?vs = "map (\<lambda>i. [n i]) [0 ..< W]"
  have b: "map (\<lambda>r. size_buffer W r (n r)) [0 ..< W]
     = map (\<lambda>r. replicate (sum_list (map length (take r ?vs))) 0 @ ?vs ! r
              @ replicate (sum_list (map length (drop (Suc r) ?vs))) 0) [0 ..< length ?vs]"
    by (simp add: size_buffer_closed singleton_offsets del: upt_Suc)
  have ne: "?vs \<noteq> []" using assms by auto
  have c: "concat ?vs = map n [0 ..< W]" by (simp add: concat_map_singleton comp_def)
  show ?thesis
  proof (cases "1 < W")
    case True
    then show ?thesis
      unfolding b using all_reduce_sum_padded [OF ne] c by (simp add: sync_def del: upt_Suc)
  next
    case False
    then have W: "W = 1" and r: "rank = 0" using assms by simp_all
    show ?thesis unfolding W r by (simp add: sync_def size_buffer_def)
  qed
qed

lemma sizes_of_locals:
  assumes "rank < length locals"
  shows "sync rank (map (\<lambda>r. size_buffer (length locals) r (length (f (locals ! r)))) [0 ..< length locals])
       = map length (map f locals)"
proof -
  have "map (\<lambda>r. length (f (locals ! r))) [0 ..< length locals] = map length (map f locals)"
    by (rule nth_equalityI) simp_all
  then show ?thesis using sizes_gathered [OF assms, of "\<lambda>r. length (f (locals ! r))"] by simp
qed

lemma all_gather_by_sizes:
  assumes "rank < length locals" and "\<forall>l\<in>set locals. length (g l) = length (f l)"
  shows "all_gather rank (map length (map f locals)) (map g locals)
       = Inr (concat (map g locals :: 'a::comm_monoid_add list list))"
proof -
  have "map length (map f locals) = map length (map g locals)" using assms(2) by simp
  moreover have "rank < length (map g locals)" using assms(1) by simp
  ultimately show ?thesis by (simp only: all_gather_concat)
qed

lemma aggregate_concat:
  assumes "rank < length locals"
    and "\<forall>l\<in>set locals. length (loc_num_negative l) = length (loc_ranking l)
                         \<and> length (loc_num_tail_neg l) = length (loc_tail_ranking l)"
  shows "aggregate rank locals =
           Inr \<lparr>all_ranking = concat (map loc_ranking locals),
                all_num_negative = concat (map loc_num_negative locals),
                all_ranking_t = concat (map loc_tail_ranking locals),
                all_num_negative_t = concat (map loc_num_tail_neg locals)\<rparr>"
proof -
  have a: "all_gather rank (map length (map loc_ranking locals)) (map loc_ranking locals)
         = Inr (concat (map loc_ranking locals))"
    by (rule all_gather_by_sizes [OF assms(1)]) simp
  have b: "all_gather rank (map length (map loc_ranking locals)) (map loc_num_negative locals)
         = Inr (concat (map loc_num_negative locals))"
    using assms(2) by (intro all_gather_by_sizes [OF assms(1)]) simp
  have c: "all_gather rank (map length (map loc_tail_ranking locals)) (map loc_tail_ranking locals)
         = Inr (concat (map loc_tail_ranking locals))"
    by (rule all_gather_by_sizes [OF assms(1)]) simp
  have d: "all_gather rank (map length (map loc_tail_ranking locals)) (map loc_num_tail_neg locals)
         = Inr (concat (map loc_num_tail_neg locals))"
    using assms(2) by (intro all_gather_by_sizes [OF assms(1)]) simp
  show ?thesis
    unfolding aggregate_def Let_def sizes_of_locals [OF assms(1)] a b c d bind_err_Inr
    using assms(1) by simp
qed

text \<open>
  Claim C1. When every worker holds as many numbers of negatives as ranks (and the same
  for the tail-only vectors), every worker ends the exchange of the sizes, the prefix
  sums, the padding and the reduction with the concatenation of the local vectors of all
  the workers, in the order of the ranks and, within a worker, in the local order. The
  global length is the sum of the local lengths, and one worker alone gets its local
  vectors back.
\<close>

theorem aggregate_is_concatenation:
  assumes "rank < length locals"
    and "\<forall>l\<in>set locals. length (loc_num_negative l) = length (loc_ranking l)
                         \<and> length (loc_num_tail_neg l) = length (loc_tail_ranking l)"
  shows "aggregate rank locals =
           Inr \<lparr>all_ranking = concat (map loc_ranking locals),
                all_num_negative = concat (map loc_num_negative locals),
                all_ranking_t = concat (map loc_tail_ranking locals),
                all_num_negative_t = concat (map loc_num_tail_neg locals)\<rparr>
       \<and> length (concat (map loc_ranking locals)) = (\<Sum>l\<leftarrow>locals. length (loc_ranking l))
       \<and> (length locals = 1 \<longrightarrow>
            aggregate rank locals =
              Inr \<lparr>all_ranking = loc_ranking (hd locals),
                   all_num_negative = loc_num_negative (hd locals),
                   all_ranking_t = loc_tail_ranking (hd locals),
                   all_num_negative_t = loc_num_tail_neg (hd locals)\<rparr>)"
proof -
  have main: "aggregate rank locals =
           Inr \<lparr>all_ranking = concat (map loc_ranking locals),
                all_num_negative = concat (map loc_num_negative locals),
                all_ranking_t = concat (map loc_tail_ranking locals),
                all_num_negative_t = concat (map loc_num_tail_neg locals)\<rparr>"
    using assms by (rule aggregate_concat)
  have len: "length (concat (map loc_ranking locals)) = (\<Sum>l\<leftarrow>locals. length (loc_ranking l))"
    by (simp add: length_concat comp_def)
  have one: "aggregate rank locals =
              Inr \<lparr>all_ranking = loc_ranking (hd locals),
                   all_num_negative = loc_num_negative (hd locals),
                   all_ranking_t = loc_tail_ranking (hd locals),
                   all_num_negative_t = loc_num_tail_neg (hd locals)\<rparr>"
    if single: "length locals = 1"
  proof -
    obtain l where "locals = [l]" using single by (cases locals) auto
    then show ?thesis unfolding main by simp
  qed
  show ?thesis using main len one by blast
qed

text \<open>
  An instance with three workers of 2, 4 and 0 queries, seen from the worker 1.
\<close>

theorem aggregate_example:
  "aggregate 1
     [\<lparr>loc_ranking = [1, 2], loc_num_negative = [5, 6],
       loc_tail_ranking = [1], loc_num_tail_neg = [5]\<rparr>,
      \<lparr>loc_ranking = [3, 4, 7, 8], loc_num_negative = [5, 6, 7, 8],
       loc_tail_ranking = [3, 7], loc_num_tail_neg = [5, 7]\<rparr>,
      \<lparr>loc_ranking = [], loc_num_negative = [],
       loc_tail_ranking = [], loc_num_tail_neg = []\<rparr>]
   = Inr \<lparr>all_ranking = [1, 2, 3, 4, 7, 8], all_num_negative = [5, 6, 5, 6, 7, 8],
          all_ranking_t = [1, 3, 7], all_num_negative_t = [5, 5, 7]\<rparr>"
  using aggregate_is_concatenation [of 1
     "[\<lparr>loc_ranking = [1, 2], loc_num_negative = [5, 6],
       loc_tail_ranking = [1], loc_num_tail_neg = [5]\<rparr>,
      \<lparr>loc_ranking = [3, 4, 7, 8], loc_num_negative = [5, 6, 7, 8],
       loc_tail_ranking = [3, 7], loc_num_tail_neg = [5, 7]\<rparr>,
      \<lparr>loc_ranking = [], loc_num_negative = [],
       loc_tail_ranking = [], loc_num_tail_neg = []\<rparr>]"]
  by simp

lemma evaluate_batches_lengths:
  assumes "evaluate_batches bs = Inr l"
    and "\<forall>b\<in>set bs. length (num_t_negative b) = length (t_ranking b)
                     \<and> length (num_h_negative b) = length (h_ranking b)"
  shows "length (loc_num_negative l) = length (loc_ranking l)
       \<and> length (loc_num_tail_neg l) = length (loc_tail_ranking l)"
proof -
  have ne: "bs \<noteq> []" using assms(1) by (auto simp: evaluate_batches_def torch_cat_def)
  have l: "l = \<lparr>loc_ranking = concat (concat (map (\<lambda>b. [t_ranking b, h_ranking b]) bs)),
                 loc_num_negative = concat (concat (map (\<lambda>b. [num_t_negative b, num_h_negative b]) bs)),
                 loc_tail_ranking = concat (map t_ranking bs),
                 loc_num_tail_neg = concat (map num_t_negative bs)\<rparr>"
    using assms(1) ne by (cases bs) (simp_all add: evaluate_batches_def torch_cat_def)
  have "length (concat (concat (map (\<lambda>b. [num_t_negative b, num_h_negative b]) bs)))
      = length (concat (concat (map (\<lambda>b. [t_ranking b, h_ranking b]) bs)))"
    using assms(2) by (induction bs) simp_all
  moreover have "length (concat (map num_t_negative bs)) = length (concat (map t_ranking bs))"
    using assms(2) by (induction bs) simp_all
  ultimately show ?thesis unfolding l by simp
qed

subsection \<open>The suffix of a metric name\<close>

lemma startswith_append: "startswith (p @ s) p"
  by (induction p) simp_all

lemma contains_self: "contains p p"
  using startswith_append [of p "[]"] by (cases p) simp_all

lemma contains_suffix: "contains (s @ p) p"
  by (induction s) (simp_all add: contains_self)

lemma select_aggregate_tail:
  assumes "CHR ''-'' \<notin> set metric_name"
  shows "select_aggregate (metric_name @ ''-tail'') ag =
         Inr (metric_name, all_ranking_t ag, all_num_negative_t ag)"
proof -
  have c: "contains (metric_name @ ''-tail'') ''-tail''" by (rule contains_suffix)
  have s: "split_str (CHR ''-'') (metric_name @ CHR ''-'' # ''tail'') = [metric_name, ''tail'']"
    using assms by (intro split_str_one) simp_all
  show ?thesis unfolding select_aggregate_def using c s by simp
qed

lemma select_aggregate_other_suffix:
  assumes "\<not> contains metric ''-tail''"
  shows "select_aggregate metric ag = Inr (metric, all_ranking ag, all_num_negative ag)"
  using assms by (simp add: select_aggregate_def)

lemmas loop_defs = metric_step_def select_aggregate_def report_def

lemma test_single_worker:
  "test 0 [[\<lparr>t_ranking = [1], h_ranking = [2], num_t_negative = [3], num_h_negative = [3]\<rparr>]]
     metric_names return_metrics =
   report 0 \<lparr>all_ranking = [1, 2], all_num_negative = [3, 3],
             all_ranking_t = [1], all_num_negative_t = [3]\<rparr> metric_names return_metrics"
proof -
  let ?l = "\<lparr>loc_ranking = [1, 2], loc_num_negative = [3, 3],
             loc_tail_ranking = [1], loc_num_tail_neg = [3]\<rparr>"
  have l: "map_err evaluate_batches
      [[\<lparr>t_ranking = [1], h_ranking = [2], num_t_negative = [3], num_h_negative = [3]\<rparr>]]
      = Inr [?l]"
    by (simp add: evaluate_batches_def torch_cat_def)
  have ag: "aggregate 0 [?l] = Inr \<lparr>all_ranking = [1, 2], all_num_negative = [3, 3],
             all_ranking_t = [1], all_num_negative_t = [3]\<rparr>"
    using aggregate_concat [of 0 "[?l]"] by simp
  show ?thesis unfolding test_def l bind_err_Inr ag ..
qed

text \<open>
  Claim C4 on the program. A suffix other than \<^verbatim>\<open>-tail\<close> is rejected only when the name
  contains \<^verbatim>\<open>-tail\<close>. The name \<^verbatim>\<open>mrr-head\<close> after \<^verbatim>\<open>mrr\<close> is given the score of \<^verbatim>\<open>mrr\<close>
  without any error; as the first name it fails when the unbound \<^verbatim>\<open>score\<close> is read, and
  \<^verbatim>\<open>hits@1-head\<close> fails in \<^verbatim>\<open>int\<close>, after the metrics before it were computed. The error of
  the program for an unsupported suffix is reached by \<^verbatim>\<open>mrr-tails\<close>.
\<close>

theorem unsupported_suffix_not_rejected:
  "test 0 [[\<lparr>t_ranking = [1], h_ranking = [2], num_t_negative = [3], num_h_negative = [3]\<rparr>]]
     [''mrr'', ''mrr-head''] True
     = Inr (Metrics [(''mrr'', Fin (3 / 4)), (''mrr-head'', Fin (3 / 4))])
   \<and> test 0 [[\<lparr>t_ranking = [1], h_ranking = [2], num_t_negative = [3], num_h_negative = [3]\<rparr>]]
     [''mrr-head''] True = Inl UnboundLocalError
   \<and> test 0 [[\<lparr>t_ranking = [1], h_ranking = [2], num_t_negative = [3], num_h_negative = [3]\<rparr>]]
     [''mrr'', ''hits@1-head''] True = Inl InvalidLiteral
   \<and> test 0 [[\<lparr>t_ranking = [1], h_ranking = [2], num_t_negative = [3], num_h_negative = [3]\<rparr>]]
     [''mrr-tails''] True = Inl OnlyTailSupported"
  unfolding test_single_worker
  by (simp add: loop_defs engine_defs)

subsection \<open>The coordinating worker\<close>

lemma test_report:
  assumes "map_err evaluate_batches workers = Inr locals" and "rank < length locals"
    and "\<forall>l\<in>set locals. length (loc_num_negative l) = length (loc_ranking l)
                         \<and> length (loc_num_tail_neg l) = length (loc_tail_ranking l)"
  shows "test rank workers metric_names return_metrics =
         report rank (global_result locals) metric_names return_metrics"
  unfolding test_def assms(1) bind_err_Inr aggregate_concat [OF assms(2,3)] global_result_def ..




subsection \<open>The blocks of epochs\<close>

lemma block_step_pos: "0 < num_epoch cfg \<Longrightarrow> 0 < block_step cfg"
  unfolding block_step_def by linarith

lemma num_blocks_eq:
  "num_blocks cfg = (num_epoch cfg + block_step cfg - 1) div block_step cfg"
  by (simp add: num_blocks_def range_step_def)

lemma block_start_less:
  assumes "0 < num_epoch cfg" "k < num_blocks cfg"
  shows "k * block_step cfg < num_epoch cfg"
proof -
  let ?s = "block_step cfg" and ?N = "num_epoch cfg"
  have s: "0 < ?s" using assms(1) by (rule block_step_pos)
  have "Suc k \<le> (?N + ?s - 1) div ?s" using assms(2) by (simp add: num_blocks_eq)
  then have "Suc k * ?s \<le> (?N + ?s - 1) div ?s * ?s" by (rule mult_le_mono1)
  also have "\<dots> \<le> ?N + ?s - 1" by simp
  finally have "k * ?s + ?s \<le> ?N + ?s - 1" by simp
  then show ?thesis using s by linarith
qed

lemma blocks_cover:
  assumes "0 < num_epoch cfg"
  shows "num_epoch cfg \<le> num_blocks cfg * block_step cfg"
proof -
  let ?s = "block_step cfg" and ?N = "num_epoch cfg"
  have s: "0 < ?s" using assms by (rule block_step_pos)
  have "?N + ?s - 1 = (?N + ?s - 1) div ?s * ?s + (?N + ?s - 1) mod ?s" by simp
  moreover have "(?N + ?s - 1) mod ?s < ?s" using s by simp
  ultimately have "?N + ?s - 1 < (?N + ?s - 1) div ?s * ?s + ?s" by linarith
  then show ?thesis unfolding num_blocks_eq using s by linarith
qed

lemma num_blocks_pos: "0 < num_epoch cfg \<Longrightarrow> 0 < num_blocks cfg"
  using blocks_cover [of cfg] by (cases "num_blocks cfg") simp_all

lemma boundary_start:
  "0 < num_epoch cfg \<Longrightarrow> k < num_blocks cfg \<Longrightarrow> boundary cfg k = k * block_step cfg"
  using block_start_less [of cfg k] by (simp add: boundary_def)

lemma boundary_next:
  "boundary cfg (Suc k) = min (num_epoch cfg) (k * block_step cfg + block_step cfg)"
  by (simp add: boundary_def add.commute)

lemma boundary_increases:
  assumes "0 < num_epoch cfg" "k < num_blocks cfg"
  shows "boundary cfg k < boundary cfg (Suc k)"
  unfolding boundary_start [OF assms] boundary_next
  using block_start_less [OF assms] block_step_pos [OF assms(1)] by simp

lemma boundary_mono:
  assumes "0 < num_epoch cfg" "j < k" "k \<le> num_blocks cfg"
  shows "boundary cfg j < boundary cfg k"
  using assms(2,3)
proof (induction k)
  case 0
  then show ?case by simp
next
  case (Suc k)
  have i: "boundary cfg k < boundary cfg (Suc k)"
    using boundary_increases [OF assms(1), of k] Suc.prems(2) by simp
  show ?case
  proof (cases "j = k")
    case True
    then show ?thesis using i by simp
  next
    case False
    then have "boundary cfg j < boundary cfg k" using Suc by simp
    then show ?thesis using i by simp
  qed
qed

lemma range_step_blocks:
  "range_step (num_epoch cfg) (block_step cfg) = map (\<lambda>k. k * block_step cfg) [0 ..< num_blocks cfg]"
  by (simp add: range_step_def num_blocks_eq)

subsection \<open>The epochs of a block\<close>

lemma after_epochs_snoc:
  "after_epochs cfg m (es @ [e]) = fst (train_epoch cfg (after_epochs cfg m es) e)"
  by (simp add: after_epochs_def)

lemma train_epochs_ok:
  assumes "a \<le> b"
    and "cfg_rank cfg = 0 \<longrightarrow>
           (\<forall>e. a \<le> e \<and> e < b \<longrightarrow> snd (train_epoch cfg (after_epochs cfg m [0 ..< e]) e) \<noteq> [])"
  shows "train_epochs cfg (after_epochs cfg m [0 ..< a]) [a ..< b] = Inr (after_epochs cfg m [0 ..< b])"
  using assms
proof (induction "b - a" arbitrary: a)
  case 0
  then show ?case by simp
next
  case (Suc n)
  then have ab: "a < b" by simp
  have u: "[a ..< b] = a # [Suc a ..< b]" using ab by (simp add: upt_conv_Cons)
  obtain m' losses where t: "train_epoch cfg (after_epochs cfg m [0 ..< a]) a = (m', losses)"
    by (cases "train_epoch cfg (after_epochs cfg m [0 ..< a]) a")
  have ok: "\<not> (cfg_rank cfg = 0 \<and> losses = [])" using Suc.prems(2) ab t by auto
  have m': "m' = after_epochs cfg m [0 ..< Suc a]" using t by (simp add: after_epochs_snoc)
  have nn: "n = b - Suc a" using Suc.hyps(2) by simp
  have ih: "train_epochs cfg (after_epochs cfg m [0 ..< Suc a]) [Suc a ..< b] = Inr (after_epochs cfg m [0 ..< b])"
    using Suc.hyps(1) [OF nn] ab Suc.prems(2) by simp
  show ?case unfolding u using t ok ih m' by simp
qed

subsection \<open>One block, and the loop over the blocks\<close>

lemma train_block_step:
  assumes N: "0 < num_epoch cfg" and n: "n < num_blocks cfg"
    and losses: "cfg_rank cfg = 0 \<longrightarrow>
       (\<forall>e < num_epoch cfg. snd (train_epoch cfg (after_epochs cfg m [0 ..< e]) e) \<noteq> [])"
    and res: "\<forall>k. 1 \<le> k \<and> k \<le> num_blocks cfg \<longrightarrow>
       test_fn cfg (trained cfg m k) = Inr (Fin (v k))"
    and inv: "loop_inv cfg m v n st"
  shows "\<exists>st'. train_block cfg (block_step cfg) st (n * block_step cfg) = Inr st'
             \<and> loop_inv cfg m v (Suc n) st'"
proof -
  let ?s = "block_step cfg"
  let ?e = "boundary cfg (Suc n)"
  let ?m' = "trained cfg m (Suc n)"
  let ?saved = "(files st)(int ?e \<mapsto> ?m')"
  have i: "n * ?s = boundary cfg n" using boundary_start [OF N n] by simp
  have e: "min (num_epoch cfg) (n * ?s + ?s) = ?e" by (simp add: boundary_next)
  have le: "boundary cfg n \<le> ?e" using boundary_increases [OF N n] by simp
  have bN: "?e \<le> num_epoch cfg" by (simp add: boundary_def)
  have mo: "model st = after_epochs cfg m [0 ..< boundary cfg n]"
    using inv by (simp add: loop_inv_def trained_def)
  have l: "cfg_rank cfg = 0 \<longrightarrow>
      (\<forall>e. boundary cfg n \<le> e \<and> e < ?e \<longrightarrow> snd (train_epoch cfg (after_epochs cfg m [0 ..< e]) e) \<noteq> [])"
    using losses bN by auto
  have tr: "train_epochs cfg (model st) [n * ?s ..< min (num_epoch cfg) (n * ?s + ?s)] = Inr ?m'"
    unfolding e unfolding i mo trained_def by (rule train_epochs_ok [OF le l])
  have r: "test_fn cfg ?m' = Inr (Fin (v (Suc n)))" using res n by simp
  have fs: "\<forall>k. 1 \<le> k \<and> k \<le> Suc n \<longrightarrow> ?saved (int (boundary cfg k)) = Some (trained cfg m k)"
  proof (intro allI impI)
    fix k assume k: "1 \<le> k \<and> k \<le> Suc n"
    show "?saved (int (boundary cfg k)) = Some (trained cfg m k)"
    proof (cases "k = Suc n")
      case True
      then show ?thesis by simp
    next
      case False
      then have kn: "k \<le> n" using k by simp
      then have "boundary cfg k < ?e" using boundary_mono [OF N, of k "Suc n"] n by simp
      moreover have "files st (int (boundary cfg k)) = Some (trained cfg m k)"
        using inv k kn by (simp add: loop_inv_def)
      ultimately show ?thesis by simp
    qed
  qed
  have blk: "train_block cfg ?s st (n * ?s) =
      (if fl_gt (Fin (v (Suc n))) (best_result st)
       then Inr \<lparr>model = ?m', best_result = Fin (v (Suc n)), best_epoch = int ?e, files = ?saved\<rparr>
       else Inr \<lparr>model = ?m', best_result = best_result st, best_epoch = best_epoch st, files = ?saved\<rparr>)"
    unfolding train_block_def tr bind_err_Inr Let_def unfolding e r bind_err_Inr ..
  from inv consider
      (first) "n = 0" "best_result st = NInf"
    | (later) j where "1 \<le> j" "j \<le> n" "best_result st = Fin (v j)"
        "best_epoch st = int (boundary cfg j)"
        "\<forall>k. 1 \<le> k \<and> k \<le> n \<longrightarrow> v k \<le> v j" "\<forall>k. 1 \<le> k \<and> k < j \<longrightarrow> v k < v j"
    unfolding loop_inv_def by blast
  then show ?thesis
  proof cases
    case first
    let ?st' = "\<lparr>model = ?m', best_result = Fin (v (Suc n)), best_epoch = int ?e, files = ?saved\<rparr>"
    have "train_block cfg ?s st (n * ?s) = Inr ?st'" unfolding blk using first(2) by simp
    moreover have "loop_inv cfg m v (Suc n) ?st'"
      unfolding loop_inv_def using fs first(1)
      by (auto intro!: exI [of _ "Suc 0"] simp: le_Suc_eq)
    ultimately show ?thesis by blast
  next
    case later
    show ?thesis
    proof (cases "v j < v (Suc n)")
      case True
      let ?st' = "\<lparr>model = ?m', best_result = Fin (v (Suc n)), best_epoch = int ?e, files = ?saved\<rparr>"
      have "train_block cfg ?s st (n * ?s) = Inr ?st'" unfolding blk using later(3) True by simp
      moreover have "\<forall>k. 1 \<le> k \<and> k \<le> Suc n \<longrightarrow> v k \<le> v (Suc n)"
        using later(5) True by (auto simp: le_Suc_eq intro: order_trans less_imp_le)
      moreover have "\<forall>k. 1 \<le> k \<and> k < Suc n \<longrightarrow> v k < v (Suc n)"
        using later(5) True by (auto simp: less_Suc_eq_le intro: le_less_trans)
      ultimately have "train_block cfg ?s st (n * ?s) = Inr ?st' \<and> loop_inv cfg m v (Suc n) ?st'"
        unfolding loop_inv_def using fs by (auto intro!: exI [of _ "Suc n"])
      then show ?thesis by blast
    next
      case False
      let ?st' = "\<lparr>model = ?m', best_result = best_result st, best_epoch = best_epoch st, files = ?saved\<rparr>"
      have "train_block cfg ?s st (n * ?s) = Inr ?st'" unfolding blk using later(3) False by simp
      moreover have "\<forall>k. 1 \<le> k \<and> k \<le> Suc n \<longrightarrow> v k \<le> v j"
        using later(5) False by (auto simp: le_Suc_eq)
      ultimately have "train_block cfg ?s st (n * ?s) = Inr ?st' \<and> loop_inv cfg m v (Suc n) ?st'"
        unfolding loop_inv_def using fs later(1,2,3,4,6) by (auto intro!: exI [of _ j])
      then show ?thesis by blast
    qed
  qed
qed

lemma run_blocks_inv:
  assumes N: "0 < num_epoch cfg"
    and losses: "cfg_rank cfg = 0 \<longrightarrow>
       (\<forall>e < num_epoch cfg. snd (train_epoch cfg (after_epochs cfg m [0 ..< e]) e) \<noteq> [])"
    and res: "\<forall>k. 1 \<le> k \<and> k \<le> num_blocks cfg \<longrightarrow>
       test_fn cfg (trained cfg m k) = Inr (Fin (v k))"
    and n: "n \<le> num_blocks cfg"
    and inv: "loop_inv cfg m v n st"
  shows "\<exists>st'. run_blocks cfg (block_step cfg) st
                 (map (\<lambda>k. k * block_step cfg) [n ..< num_blocks cfg]) = Inr st'
             \<and> loop_inv cfg m v (num_blocks cfg) st'"
  using n inv
proof (induction "num_blocks cfg - n" arbitrary: n st)
  case 0
  then show ?case by simp
next
  case (Suc d)
  then have nb: "n < num_blocks cfg" by simp
  have u: "[n ..< num_blocks cfg] = n # [Suc n ..< num_blocks cfg]"
    using nb by (simp add: upt_conv_Cons)
  obtain st1 where st1: "train_block cfg (block_step cfg) st (n * block_step cfg) = Inr st1"
      "loop_inv cfg m v (Suc n) st1"
    using train_block_step [OF N nb losses res Suc.prems(2)] by blast
  have d: "d = num_blocks cfg - Suc n" using Suc.hyps(2) by simp
  obtain st' where st': "run_blocks cfg (block_step cfg) st1
                 (map (\<lambda>k. k * block_step cfg) [Suc n ..< num_blocks cfg]) = Inr st'"
      "loop_inv cfg m v (num_blocks cfg) st'"
    using Suc.hyps(1) [OF d _ st1(2)] nb by auto
  show ?case unfolding u using st1(1) st' by simp
qed

text \<open>
  Claim C3. With a positive number of epochs, batches in every epoch, and a finite mean
  reciprocal rank \<open>v k\<close> from the evaluation after every block \<open>k\<close>, the function returns
  with the parameters of the checkpoint of a block \<open>j\<close> whose evaluation is the greatest of
  all the blocks, and strictly greater than that of every block before it: the comparison
  is strict, an equal result keeps the earlier block, and the parameters returned are
  those of the best block, not of the last one.
\<close>

theorem best_checkpoint_reloaded:
  assumes "0 < num_epoch cfg"
    and "cfg_rank cfg = 0 \<longrightarrow>
       (\<forall>e < num_epoch cfg. snd (train_epoch cfg (after_epochs cfg m [0 ..< e]) e) \<noteq> [])"
    and "\<forall>k. 1 \<le> k \<and> k \<le> num_blocks cfg \<longrightarrow>
       test_fn cfg (trained cfg m k) = Inr (Fin (v k))"
  shows "\<exists>j. 1 \<le> j \<and> j \<le> num_blocks cfg
           \<and> train_and_validate cfg fs m = Inr (trained cfg m j)
           \<and> (\<forall>k. 1 \<le> k \<and> k \<le> num_blocks cfg \<longrightarrow> v k \<le> v j)
           \<and> (\<forall>k. 1 \<le> k \<and> k < j \<longrightarrow> v k < v j)"
proof -
  let ?st0 = "\<lparr>model = m, best_result = NInf, best_epoch = - 1, files = fs\<rparr>"
  have i0: "loop_inv cfg m v 0 ?st0"
    by (simp add: loop_inv_def trained_def boundary_def after_epochs_def)
  obtain st where st: "run_blocks cfg (block_step cfg) ?st0
        (map (\<lambda>k. k * block_step cfg) [0 ..< num_blocks cfg]) = Inr st"
      "loop_inv cfg m v (num_blocks cfg) st"
    using run_blocks_inv [OF assms _ i0] by auto
  have nb: "0 < num_blocks cfg" using assms(1) by (rule num_blocks_pos)
  obtain j where j: "1 \<le> j" "j \<le> num_blocks cfg" "best_epoch st = int (boundary cfg j)"
      "\<forall>k. 1 \<le> k \<and> k \<le> num_blocks cfg \<longrightarrow> v k \<le> v j" "\<forall>k. 1 \<le> k \<and> k < j \<longrightarrow> v k < v j"
    using st(2) nb unfolding loop_inv_def by auto
  have f: "files st (best_epoch st) = Some (trained cfg m j)"
    using st(2) j(1,2,3) by (simp add: loop_inv_def)
  have "train_and_validate cfg fs m = Inr (trained cfg m j)"
    unfolding train_and_validate_def block_step_def [symmetric] Let_def range_step_blocks
    using assms(1) st(1) f by simp
  then show ?thesis using j by blast
qed

text \<open>
  An instance: three epochs in three blocks, evaluated at \<open>1/2\<close>, 1 and 1. The parameters
  returned are those after the block 2: the block 3 is the last one and has the same
  result, and does not replace it.
\<close>

theorem best_checkpoint_example:
  "train_and_validate
     \<lparr>cfg_rank = 0, num_epoch = 3, train_epoch = (\<lambda>m e. (Suc m, [1])),
      test_fn = (\<lambda>m. Inr (Fin (if m = 1 then 1 / 2 else 1)))\<rparr>
     (\<lambda>n. None) 0 = Inr 2"
proof -
  let ?c = "\<lparr>cfg_rank = 0, num_epoch = 3, train_epoch = (\<lambda>m e. (Suc m, [1::real])),
      test_fn = (\<lambda>m. Inr (Fin (if m = 1 then 1 / 2 else 1)))\<rparr>"
  let ?v = "\<lambda>k::nat. if k = 1 then 1 / 2 else (1::real)"
  have nb: "num_blocks ?c = 3" by (simp add: num_blocks_def range_step_def block_step_def)
  have ae: "after_epochs \<lparr>cfg_rank = 0, num_epoch = 3, train_epoch = (\<lambda>m e. (Suc m, [1::real])),
      test_fn = t\<rparr> 0 [0 ..< e] = e" for e t
    by (induction e) (simp_all add: after_epochs_def)
  have tr: "trained ?c 0 k = min 3 k" for k
    by (simp add: trained_def ae boundary_def block_step_def)
  have h1: "0 < num_epoch ?c" by simp
  have h2: "cfg_rank ?c = 0 \<longrightarrow>
      (\<forall>e < num_epoch ?c. snd (train_epoch ?c (after_epochs ?c 0 [0 ..< e]) e) \<noteq> [])"
    by simp
  have h3: "\<forall>k. 1 \<le> k \<and> k \<le> num_blocks ?c \<longrightarrow> test_fn ?c (trained ?c 0 k) = Inr (Fin (?v k))"
    unfolding nb tr by auto
  obtain j where j: "1 \<le> j" "j \<le> num_blocks ?c"
      "train_and_validate ?c (\<lambda>n. None) 0 = Inr (trained ?c 0 j)"
      "\<forall>k. 1 \<le> k \<and> k \<le> num_blocks ?c \<longrightarrow> ?v k \<le> ?v j"
      "\<forall>k. 1 \<le> k \<and> k < j \<longrightarrow> ?v k < ?v j"
    using best_checkpoint_reloaded [OF h1 h2 h3, of "\<lambda>n. None"] by blast
  from j(4) have "1 \<le> (2::nat) \<and> 2 \<le> num_blocks ?c \<longrightarrow> ?v 2 \<le> ?v j" by (rule spec)
  then have "?v 2 \<le> ?v j" using nb by simp
  then have j1: "j \<noteq> 1" by (simp split: if_splits)
  have "j \<noteq> 3"
  proof
    assume j3: "j = 3"
    from j(5) have "1 \<le> (2::nat) \<and> 2 < j \<longrightarrow> ?v 2 < ?v j" by (rule spec)
    then show False using j3 by simp
  qed
  then have "j = 2" using j(1,2) j1 nb by linarith
  then show ?thesis using j(3) tr by simp
qed

text \<open>
  The hypothesis on the evaluations holds for the results of \<^verbatim>\<open>test\<close> on validation data
  that are not empty: the mean reciprocal rank of ranks that are at least 1 is finite.
\<close>

lemma mrr_finite:
  assumes "ranking \<noteq> []" and "\<forall>r\<in>set ranking. 1 \<le> r"
  shows "\<exists>x. mrr ranking = Fin x"
proof -
  have b0: "map (\<lambda>r. fl_div 1 (real_of_int r)) ranking = map (\<lambda>r. Fin (1 / real_of_int r)) ranking"
    using assms(2) by (auto simp: fl_div_def)
  show ?thesis unfolding mrr_def b0 using assms(1) by (simp add: fl_mean_map_Fin)
qed

text \<open>
  Outside of the hypotheses of the theorem: when every evaluation is NaN, no result is
  greater than the initial \<open>-\<infinity>\<close>, \<^verbatim>\<open>best_epoch\<close> stays at \<open>-1\<close>, and the load fails unless
  a file of that number exists.
\<close>

lemma nan_results_load_fails:
  "train_and_validate
     \<lparr>cfg_rank = 0, num_epoch = 2, train_epoch = (\<lambda>m e. (Suc m, [1])),
      test_fn = (\<lambda>m. Inr NaN)\<rparr>
     (\<lambda>n. None) 0 = Inl FileNotFoundError"
  by (simp add: train_and_validate_def range_step_def train_block_def upt_rec)

end
